theory Spec2Isabelle
  imports Complex_Main "HOL-Library.Sublist" "HOL-Library.AList"
begin

section \<open>Python strings\<close>

text \<open>
  A Python \<open>str\<close> is modelled as a \<open>string\<close>, each \<open>char\<close> standing for one code
  point in the range U+0000 to U+00FF. The operations below are the methods of \<open>str\<close>
  that \<open>agent.py\<close> calls, with Python's behaviour on that range.
\<close>

definition is_upper_char :: "char \<Rightarrow> bool" where
  "is_upper_char c =
     (let n = (of_char c :: nat)
      in (65 \<le> n \<and> n \<le> 90) \<or> (192 \<le> n \<and> n \<le> 222 \<and> n \<noteq> 215))"

definition is_lower_char :: "char \<Rightarrow> bool" where
  "is_lower_char c =
     (let n = (of_char c :: nat)
      in (97 \<le> n \<and> n \<le> 122) \<or> (224 \<le> n \<and> n \<le> 254 \<and> n \<noteq> 247))"

text \<open>
  In both letter ranges the lower-case letter is the upper-case one plus 32, which is
  the upper-case one with bit 5 set.
\<close>

fun set_bit5 :: "bool \<Rightarrow> char \<Rightarrow> char" where
  "set_bit5 b (Char b0 b1 b2 b3 b4 b5 b6 b7) = Char b0 b1 b2 b3 b4 b b6 b7"

definition py_lower_char :: "char \<Rightarrow> char" where
  "py_lower_char c = (if is_upper_char c then set_bit5 True c else c)"

definition py_lower :: "string \<Rightarrow> string" where
  "py_lower s = map py_lower_char s"

text \<open>
  \<open>str.upper\<close>: the sharp s (U+00DF) becomes \<open>SS\<close>. Python maps U+00B5 and U+00FF to
  letters beyond U+00FF, which this string type cannot hold; the model leaves those two
  unchanged.
\<close>

definition py_upper_char :: "char \<Rightarrow> string" where
  "py_upper_char c =
     (if is_lower_char c then [set_bit5 False c]
      else if (of_char c :: nat) = 223 then ''SS''
      else [c])"

definition py_upper :: "string \<Rightarrow> string" where
  "py_upper s = concat (map py_upper_char s)"

text \<open>\<open>str.isspace\<close> on one character: the white space that \<open>str.strip\<close> removes.\<close>

definition py_isspace :: "char \<Rightarrow> bool" where
  "py_isspace c =
     (let n = (of_char c :: nat)
      in (9 \<le> n \<and> n \<le> 13) \<or> (28 \<le> n \<and> n \<le> 32) \<or> n = 133 \<or> n = 160)"

definition py_strip :: "string \<Rightarrow> string" where
  "py_strip s = rev (dropWhile py_isspace (rev (dropWhile py_isspace s)))"

text \<open>\<open>needle in s\<close> for two strings: \<open>needle\<close> occurs in \<open>s\<close> as a contiguous run.\<close>

fun py_in :: "string \<Rightarrow> string \<Rightarrow> bool" where
  "py_in needle [] = (needle = [])"
| "py_in needle (c # cs) = (prefix needle (c # cs) \<or> py_in needle cs)"


text \<open>
  \<open>s.find(c)\<close> and \<open>s.rfind(c)\<close> for a one-character needle: the index of the first
  (last) occurrence, or \<open>-1\<close>.
\<close>

fun find_from :: "int \<Rightarrow> char \<Rightarrow> string \<Rightarrow> int" where
  "find_from i c [] = -1"
| "find_from i c (x # xs) = (if x = c then i else find_from (i + 1) c xs)"

definition py_find :: "string \<Rightarrow> char \<Rightarrow> int" where
  "py_find s c = find_from 0 c s"

fun rfind_from :: "int \<Rightarrow> int \<Rightarrow> char \<Rightarrow> string \<Rightarrow> int" where
  "rfind_from i found c [] = found"
| "rfind_from i found c (x # xs) = rfind_from (i + 1) (if x = c then i else found) c xs"

definition py_rfind :: "string \<Rightarrow> char \<Rightarrow> int" where
  "py_rfind s c = rfind_from 0 (-1) c s"

text \<open>
  The slice \<open>s[start:end]\<close>: a negative bound counts from the end, both bounds are
  clamped to the string, and an empty range gives the empty string.
\<close>

definition slice_bound :: "int \<Rightarrow> int \<Rightarrow> nat" where
  "slice_bound n i = nat (if i < 0 then max (n + i) 0 else min i n)"

definition py_slice :: "string \<Rightarrow> int \<Rightarrow> int \<Rightarrow> string" where
  "py_slice s start stop =
     (let n = int (length s); lo = slice_bound n start; hi = slice_bound n stop
      in take (hi - lo) (drop lo s))"


section \<open>Python values\<close>

subsection \<open>Floats\<close>

text \<open>
  A Python \<open>float\<close> is an IEEE 754 binary64 number. A finite one is modelled by its
  exact value, a rational; the sign of zero is not kept. \<open>double_round\<close> is the rounding
  every float operation ends with: to the nearest float, ties to the even significand,
  with 53 bits of significand, exponents from \<open>-1022\<close> (below, the spacing stays
  \<open>2 ^ -1074\<close>) to \<open>1023\<close> (above, the result is infinite).
\<close>

datatype pyfloat = Finite rat | PosInf | NegInf | NaN

definition pow2 :: "int \<Rightarrow> rat" where
  "pow2 k = (if 0 \<le> k then 2 ^ nat k else 1 / 2 ^ nat (- k))"

fun bit_length :: "nat \<Rightarrow> nat" where
  "bit_length n = (if n = 0 then 0 else Suc (bit_length (n div 2)))"

declare bit_length.simps [simp del]

text \<open>For \<open>x > 0\<close>, \<open>ilog2 x\<close> is the \<open>e\<close> with \<open>2 ^ e \<le> x < 2 ^ (e + 1)\<close>.\<close>

definition ilog2 :: "rat \<Rightarrow> int" where
  "ilog2 x =
     (let (p, q) = quotient_of x;
          k = int (bit_length (nat p)) - int (bit_length (nat q))
      in if pow2 k \<le> x then k else k - 1)"

definition round_half_even :: "rat \<Rightarrow> int" where
  "round_half_even x =
     (let f = \<lfloor>x\<rfloor>; d = x - of_int f
      in if d < 1 / 2 then f else if 1 / 2 < d then f + 1 else if even f then f else f + 1)"

definition double_round :: "rat \<Rightarrow> pyfloat" where
  "double_round x =
     (let a = \<bar>x\<bar>; e = max (ilog2 a) (- 1022); q = pow2 (e - 52);
          r = of_int (round_half_even (a / q)) * q
      in if x = 0 then Finite 0
         else if pow2 1024 \<le> r then (if x < 0 then NegInf else PosInf)
         else Finite (if x < 0 then - r else r))"

subsection \<open>The values \<open>json.load\<close> builds\<close>

text \<open>
  \<open>None\<close>, \<open>bool\<close>, \<open>int\<close>, \<open>float\<close>, \<open>str\<close>, \<open>list\<close> and \<open>dict\<close> with \<open>str\<close> keys. A
  \<open>dict\<close> is the list of its items in insertion order; its keys are distinct.
\<close>

datatype json =
    JNull
  | JBool bool
  | JInt int
  | JFloat pyfloat
  | JStr string
  | JArr "json list"
  | JObj "(string \<times> json) list"

datatype py_error =
    KeyError
  | TypeError
  | AttributeError
  | ValueError
  | ZeroDivisionError
  | OverflowError
  | EOFError
  | JSONDecodeError
  | RecursionError

text \<open>
  A computation that may raise returns \<open>py_error + 'a\<close>; \<open>and_then\<close> runs the next
  statement unless the previous one raised.
\<close>

definition and_then :: "py_error + 'a \<Rightarrow> ('a \<Rightarrow> py_error + 'b) \<Rightarrow> py_error + 'b" where
  "and_then m f = (case m of Inl e \<Rightarrow> Inl e | Inr x \<Rightarrow> f x)"

fun py_map :: "('a \<Rightarrow> py_error + 'b) \<Rightarrow> 'a list \<Rightarrow> py_error + 'b list" where
  "py_map f [] = Inr []"
| "py_map f (x # xs) =
     (case f x of
        Inl e \<Rightarrow> Inl e
      | Inr y \<Rightarrow> (case py_map f xs of Inl e \<Rightarrow> Inl e | Inr ys \<Rightarrow> Inr (y # ys)))"

text \<open>\<open>x[key]\<close> with a \<open>str\<close> key.\<close>

fun py_getitem :: "json \<Rightarrow> string \<Rightarrow> py_error + json" where
  "py_getitem (JObj kvs) key =
     (case map_of kvs key of None \<Rightarrow> Inl KeyError | Some v \<Rightarrow> Inr v)"
| "py_getitem _ key = Inl TypeError"

text \<open>\<open>x[key] = v\<close> with a \<open>str\<close> key.\<close>

fun py_setitem :: "json \<Rightarrow> string \<Rightarrow> json \<Rightarrow> py_error + json" where
  "py_setitem (JObj kvs) key v = Inr (JObj (AList.update key v kvs))"
| "py_setitem _ key v = Inl TypeError"

text \<open>What \<open>for t in x\<close> runs over.\<close>

fun py_iter :: "json \<Rightarrow> py_error + json list" where
  "py_iter (JArr xs) = Inr xs"
| "py_iter (JObj kvs) = Inr (map (\<lambda>kv. JStr (fst kv)) kvs)"
| "py_iter (JStr s) = Inr (map (\<lambda>c. JStr [c]) s)"
| "py_iter _ = Inl TypeError"

text \<open>\<open>len(x)\<close>.\<close>

fun py_len :: "json \<Rightarrow> py_error + int" where
  "py_len (JArr xs) = Inr (int (length xs))"
| "py_len (JObj kvs) = Inr (int (length kvs))"
| "py_len (JStr s) = Inr (int (length s))"
| "py_len _ = Inl TypeError"

text \<open>The truth value of \<open>x\<close> in \<open>if x:\<close>.\<close>

fun py_truthy :: "json \<Rightarrow> bool" where
  "py_truthy JNull = False"
| "py_truthy (JBool b) = b"
| "py_truthy (JInt i) = (i \<noteq> 0)"
| "py_truthy (JFloat f) = (f \<noteq> Finite 0)"
| "py_truthy (JStr s) = (s \<noteq> [])"
| "py_truthy (JArr xs) = (xs \<noteq> [])"
| "py_truthy (JObj kvs) = (kvs \<noteq> [])"

text \<open>\<open>x.append(v)\<close>: only a list has the method.\<close>

fun py_append :: "json \<Rightarrow> json \<Rightarrow> py_error + json" where
  "py_append (JArr xs) v = Inr (JArr (xs @ [v]))"
| "py_append _ v = Inl AttributeError"

text \<open>
  \<open>float(n)\<close> for an \<open>int\<close> raises when the nearest float is infinite; float addition
  and multiplication do not raise.
\<close>

definition float_of_int :: "int \<Rightarrow> py_error + rat" where
  "float_of_int n =
     (case double_round (of_int n) of Finite r \<Rightarrow> Inr r | _ \<Rightarrow> Inl OverflowError)"

fun float_add :: "pyfloat \<Rightarrow> rat \<Rightarrow> pyfloat" where
  "float_add (Finite x) y = double_round (x + y)"
| "float_add f y = f"

fun float_mul :: "pyfloat \<Rightarrow> rat \<Rightarrow> pyfloat" where
  "float_mul (Finite x) y = double_round (x * y)"
| "float_mul PosInf y = (if y = 0 then NaN else if 0 < y then PosInf else NegInf)"
| "float_mul NegInf y = (if y = 0 then NaN else if 0 < y then NegInf else PosInf)"
| "float_mul NaN y = NaN"

text \<open>\<open>a / b\<close> for two \<open>int\<close>s: the float nearest to the quotient.\<close>

definition py_truediv :: "int \<Rightarrow> int \<Rightarrow> py_error + pyfloat" where
  "py_truediv a b =
     (if b = 0 then Inl ZeroDivisionError
      else (case double_round (of_int a / of_int b) of
              Finite r \<Rightarrow> Inr (Finite r)
            | _ \<Rightarrow> Inl OverflowError))"

text \<open>\<open>x += n\<close> for an \<open>int\<close> \<open>n\<close>, as far as it gives a new value for \<open>x\<close>.\<close>

fun py_iadd :: "json \<Rightarrow> int \<Rightarrow> py_error + json" where
  "py_iadd (JInt a) n = Inr (JInt (a + n))"
| "py_iadd (JBool b) n = Inr (JInt ((if b then 1 else 0) + n))"
| "py_iadd (JFloat f) n =
     (case float_of_int n of Inl e \<Rightarrow> Inl e | Inr y \<Rightarrow> Inr (JFloat (float_add f y)))"
| "py_iadd _ n = Inl TypeError"

section \<open>The \<open>json\<close> module\<close>

text \<open>
  \<open>json.loads\<close> and \<open>json.dump\<close> belong to Python's standard library, not to the
  repository; the program's behaviour depends on them, so they are modelled here after
  the library's decoder and encoder. Three limits of the library's implementation are
  left out: the bound on the nesting depth (\<open>RecursionError\<close>), the bound on the number
  of digits of an \<open>int\<close>, and \<open>\u\<close> escapes for code points beyond U+00FF, which the
  string type cannot hold (the model's decoder rejects them).
\<close>

subsection \<open>Decoding\<close>

definition is_json_ws :: "char \<Rightarrow> bool" where
  "is_json_ws c = (c = CHR '' '' \<or> c = CHR 0x09 \<or> c = CHR 0x0A \<or> c = CHR 0x0D)"

definition skip_ws :: "string \<Rightarrow> string" where
  "skip_ws s = dropWhile is_json_ws s"

definition is_digit :: "char \<Rightarrow> bool" where
  "is_digit c = (48 \<le> (of_char c :: nat) \<and> (of_char c :: nat) \<le> 57)"

definition digit_val :: "char \<Rightarrow> nat" where
  "digit_val c = of_char c - 48"

definition nat_of_digits :: "string \<Rightarrow> nat" where
  "nat_of_digits ds = foldl (\<lambda>n c. 10 * n + digit_val c) 0 ds"

definition hex_val :: "char \<Rightarrow> nat option" where
  "hex_val c =
     (let n = (of_char c :: nat)
      in if 48 \<le> n \<and> n \<le> 57 then Some (n - 48)
         else if 97 \<le> n \<and> n \<le> 102 then Some (n - 87)
         else if 65 \<le> n \<and> n \<le> 70 then Some (n - 55)
         else None)"

text \<open>The value of the four hexadecimal digits after \<open>\u\<close>.\<close>

definition hex4 :: "char \<Rightarrow> char \<Rightarrow> char \<Rightarrow> char \<Rightarrow> nat option" where
  "hex4 a b c d =
     (case (hex_val a, hex_val b, hex_val c, hex_val d) of
        (Some h3, Some h2, Some h1, Some h0) \<Rightarrow> Some (4096 * h3 + 256 * h2 + 16 * h1 + h0)
      | _ \<Rightarrow> None)"

definition unescape :: "char \<Rightarrow> char option" where
  "unescape e =
     (if e = CHR 0x22 then Some (CHR 0x22)
      else if e = CHR 0x5C then Some (CHR 0x5C)
      else if e = CHR ''/'' then Some (CHR ''/'')
      else if e = CHR ''b'' then Some (CHR 0x08)
      else if e = CHR ''f'' then Some (CHR 0x0C)
      else if e = CHR ''n'' then Some (CHR 0x0A)
      else if e = CHR ''r'' then Some (CHR 0x0D)
      else if e = CHR ''t'' then Some (CHR 0x09)
      else None)"

definition cons_result :: "char \<Rightarrow> (string \<times> string) option \<Rightarrow> (string \<times> string) option" where
  "cons_result c r = (case r of None \<Rightarrow> None | Some (s, rest) \<Rightarrow> Some (c # s, rest))"

text \<open>
  \<open>scan_string\<close> reads a string literal after its opening quote (the decoder's
  \<open>scanstring\<close> in strict mode): up to the closing quote, decoding escapes, refusing
  control characters. \<open>None\<close> is a \<open>JSONDecodeError\<close>.
\<close>

fun scan_string :: "string \<Rightarrow> (string \<times> string) option" where
  "scan_string [] = None"
| "scan_string (c # cs) =
     (if c = CHR 0x22 then Some ([], cs)
      else if c = CHR 0x5C then
        (case cs of
           [] \<Rightarrow> None
         | e # cs' \<Rightarrow>
             if e = CHR ''u'' then
               (case cs' of
                  a # b # c # d # rest \<Rightarrow>
                    (case hex4 a b c d of
                       None \<Rightarrow> None
                     | Some n \<Rightarrow>
                         if n < 256 then cons_result (char_of n) (scan_string rest)
                         else None)
                | _ \<Rightarrow> None)
             else
               (case unescape e of
                  None \<Rightarrow> None
                | Some ch \<Rightarrow> cons_result ch (scan_string cs')))
      else if (of_char c :: nat) < 32 then None
      else cons_result c (scan_string cs))"

text \<open>
  The decoder's number pattern: an optional minus sign, \<open>0\<close> or a digit string without
  leading zero, an optional fraction (a dot and at least one digit), an optional
  exponent (\<open>e\<close> or \<open>E\<close>, an optional sign, at least one digit). Without fraction and
  exponent the number is an \<open>int\<close>, otherwise the \<open>float\<close> nearest to its value.
\<close>

definition scan_int_part :: "string \<Rightarrow> (string \<times> string) option" where
  "scan_int_part s =
     (case s of
        [] \<Rightarrow> None
      | c # cs \<Rightarrow>
          if c = CHR ''0'' then Some ([c], cs)
          else if is_digit c then Some (c # takeWhile is_digit cs, dropWhile is_digit cs)
          else None)"

definition scan_frac :: "string \<Rightarrow> (string \<times> string) option" where
  "scan_frac s =
     (case s of
        c # d # ds \<Rightarrow>
          if c = CHR ''.'' \<and> is_digit d
          then Some (takeWhile is_digit (d # ds), dropWhile is_digit (d # ds))
          else None
      | _ \<Rightarrow> None)"

definition scan_exp :: "string \<Rightarrow> (int \<times> string) option" where
  "scan_exp s =
     (case s of
        [] \<Rightarrow> None
      | e # rest \<Rightarrow>
          if e = CHR ''e'' \<or> e = CHR ''E'' then
            (let (sign, r) =
               (case rest of
                  [] \<Rightarrow> (1, rest)
                | c # cs \<Rightarrow>
                    if c = CHR ''-'' then (- 1, cs)
                    else if c = CHR ''+'' then (1, cs)
                    else (1, rest))
             in case r of
                  [] \<Rightarrow> None
                | d # ds \<Rightarrow>
                    if is_digit d
                    then Some (sign * int (nat_of_digits (takeWhile is_digit r)),
                               dropWhile is_digit r)
                    else None)
          else None)"

definition pow10 :: "int \<Rightarrow> rat" where
  "pow10 k = (if 0 \<le> k then 10 ^ nat k else 1 / 10 ^ nat (- k))"

definition decimal_value :: "string \<Rightarrow> string \<Rightarrow> int \<Rightarrow> rat" where
  "decimal_value ip fp ex =
     (of_nat (nat_of_digits ip) + of_nat (nat_of_digits fp) / 10 ^ length fp) * pow10 ex"

definition scan_number :: "string \<Rightarrow> (json \<times> string) option" where
  "scan_number s =
     (let (neg, s1) =
        (case s of [] \<Rightarrow> (False, s) | c # cs \<Rightarrow> if c = CHR ''-'' then (True, cs) else (False, s))
      in case scan_int_part s1 of
           None \<Rightarrow> None
         | Some (ip, s2) \<Rightarrow>
             (let (fp, s3) =
                (case scan_frac s2 of None \<Rightarrow> ([], s2) | Some (fd, r) \<Rightarrow> (fd, r));
                  (ex, s4) =
                (case scan_exp s3 of None \<Rightarrow> (None, s3) | Some (e, r) \<Rightarrow> (Some e, r))
              in if fp = [] \<and> ex = None
                 then Some (JInt ((if neg then - 1 else 1) * int (nat_of_digits ip)), s4)
                 else Some (JFloat (double_round
                              ((if neg then - 1 else 1)
                               * decimal_value ip fp (case ex of None \<Rightarrow> 0 | Some e \<Rightarrow> e))),
                            s4)))"

text \<open>
  \<open>dict(pairs)\<close>: a key that comes again keeps its first place and takes the later
  value.
\<close>

definition dict_of_pairs :: "(string \<times> json) list \<Rightarrow> (string \<times> json) list" where
  "dict_of_pairs ps = foldl (\<lambda>d kv. AList.update (fst kv) (snd kv) d) [] ps"

text \<open>
  The decoder proper. Its recursion follows the nesting of the text, so the model
  carries a bound on the number of calls; \<open>json_loads\<close> starts it with a bound that the
  text cannot exhaust (lemma \<open>parse_value_fuel\<close> below).
\<close>

datatype 'a parsed = Parsed 'a string | SyntaxError | OutOfFuel

fun map_parsed :: "('a \<Rightarrow> 'b) \<Rightarrow> 'a parsed \<Rightarrow> 'b parsed" where
  "map_parsed f (Parsed x rest) = Parsed (f x) rest"
| "map_parsed f SyntaxError = SyntaxError"
| "map_parsed f OutOfFuel = OutOfFuel"

definition scan_constant :: "string \<Rightarrow> json parsed" where
  "scan_constant s =
     (if prefix ''NaN'' s then Parsed (JFloat NaN) (drop 3 s)
      else if prefix ''Infinity'' s then Parsed (JFloat PosInf) (drop 8 s)
      else if prefix ''-Infinity'' s then Parsed (JFloat NegInf) (drop 9 s)
      else SyntaxError)"

fun parse_value :: "nat \<Rightarrow> string \<Rightarrow> json parsed"
  and parse_items :: "nat \<Rightarrow> string \<Rightarrow> json list parsed"
  and parse_pairs :: "nat \<Rightarrow> string \<Rightarrow> (string \<times> json) list parsed"
where
  "parse_value 0 s = OutOfFuel"
| "parse_value (Suc n) s =
     (case s of
        [] \<Rightarrow> SyntaxError
      | c # cs \<Rightarrow>
          if c = CHR 0x22 then
            (case scan_string cs of
               None \<Rightarrow> SyntaxError
             | Some (str, rest) \<Rightarrow> Parsed (JStr str) rest)
          else if c = CHR ''{'' then
            (case skip_ws cs of
               [] \<Rightarrow> SyntaxError
             | d # ds \<Rightarrow>
                 if d = CHR ''}'' then Parsed (JObj []) ds
                 else if d = CHR 0x22
                 then map_parsed (\<lambda>ps. JObj (dict_of_pairs ps)) (parse_pairs n ds)
                 else SyntaxError)
          else if c = CHR ''['' then
            (case skip_ws cs of
               [] \<Rightarrow> SyntaxError
             | d # ds \<Rightarrow>
                 if d = CHR '']'' then Parsed (JArr []) ds
                 else map_parsed JArr (parse_items n (d # ds)))
          else if prefix ''null'' s then Parsed JNull (drop 4 s)
          else if prefix ''true'' s then Parsed (JBool True) (drop 4 s)
          else if prefix ''false'' s then Parsed (JBool False) (drop 5 s)
          else
            (case scan_number s of
               Some (v, rest) \<Rightarrow> Parsed v rest
             | None \<Rightarrow> scan_constant s))"
| "parse_items 0 s = OutOfFuel"
| "parse_items (Suc n) s =
     (case parse_value n s of
        Parsed v rest \<Rightarrow>
          (case skip_ws rest of
             [] \<Rightarrow> SyntaxError
           | c # cs \<Rightarrow>
               if c = CHR '']'' then Parsed [v] cs
               else if c = CHR '',''
               then map_parsed ((#) v) (parse_items n (skip_ws cs))
               else SyntaxError)
      | SyntaxError \<Rightarrow> SyntaxError
      | OutOfFuel \<Rightarrow> OutOfFuel)"
| "parse_pairs 0 s = OutOfFuel"
| "parse_pairs (Suc n) s =
     (case scan_string s of
        None \<Rightarrow> SyntaxError
      | Some (key, r1) \<Rightarrow>
          (case skip_ws r1 of
             [] \<Rightarrow> SyntaxError
           | c # cs \<Rightarrow>
               if c \<noteq> CHR '':'' then SyntaxError
               else
                 (case parse_value n (skip_ws cs) of
                    Parsed v r2 \<Rightarrow>
                      (case skip_ws r2 of
                         [] \<Rightarrow> SyntaxError
                       | d # ds \<Rightarrow>
                           if d = CHR ''}'' then Parsed [(key, v)] ds
                           else if d = CHR '','' then
                             (case skip_ws ds of
                                [] \<Rightarrow> SyntaxError
                              | q # qs \<Rightarrow>
                                  if q = CHR 0x22
                                  then map_parsed ((#) (key, v)) (parse_pairs n qs)
                                  else SyntaxError)
                           else SyntaxError)
                  | SyntaxError \<Rightarrow> SyntaxError
                  | OutOfFuel \<Rightarrow> OutOfFuel)))"

text \<open>
  \<open>json.loads(s)\<close>: white space, one value, white space, end of text. Every failure of
  the library's decoder on a \<open>str\<close> is a \<open>JSONDecodeError\<close>.
\<close>

definition json_loads :: "string \<Rightarrow> py_error + json" where
  "json_loads s =
     (case parse_value (2 * length s + 2) (skip_ws s) of
        Parsed v rest \<Rightarrow> if skip_ws rest = [] then Inr v else Inl JSONDecodeError
      | SyntaxError \<Rightarrow> Inl JSONDecodeError
      | OutOfFuel \<Rightarrow> Inl RecursionError)"

subsection \<open>Encoding\<close>

text \<open>
  \<open>json.dumps(obj, indent=2)\<close>, the text that \<open>json.dump(obj, f, indent=2)\<close> writes.
\<close>

definition digit_char :: "nat \<Rightarrow> char" where
  "digit_char d = ''0123456789abcdef'' ! d"

fun digits_of_nat :: "nat \<Rightarrow> string" where
  "digits_of_nat n =
     (if n < 10 then [digit_char n] else digits_of_nat (n div 10) @ [digit_char (n mod 10)])"

declare digits_of_nat.simps [simp del]

definition dumps_int :: "int \<Rightarrow> string" where
  "dumps_int i = (if i < 0 then CHR ''-'' # digits_of_nat (nat (- i)) else digits_of_nat (nat i))"

text \<open>
  A float. Python writes the shortest decimal numeral that reads back as the same
  float; the model writes the exact decimal expansion of the float (a float is a
  multiple of a power of \<open>1/2\<close>, so the expansion ends), which reads back as the same
  float too. For a float with a short numeral such as \<open>60.0\<close> the two agree; otherwise
  only the digits in the file differ, not the value read back.
\<close>

definition dumps_finite :: "rat \<Rightarrow> string" where
  "dumps_finite x =
     (let (p, q) = quotient_of \<bar>x\<bar>;
          k = bit_length (nat q) - 1;
          ds = digits_of_nat ((nat p mod nat q) * 5 ^ k)
      in (if x < 0 then [CHR ''-''] else [])
         @ digits_of_nat (nat p div nat q) @ [CHR ''.'']
         @ (if k = 0 then [CHR ''0''] else replicate (k - length ds) (CHR ''0'') @ ds))"

fun dumps_float :: "pyfloat \<Rightarrow> string" where
  "dumps_float (Finite x) = dumps_finite x"
| "dumps_float PosInf = ''Infinity''"
| "dumps_float NegInf = ''-Infinity''"
| "dumps_float NaN = ''NaN''"

text \<open>
  A string, with \<open>ensure_ascii\<close>: the quote, the backslash and the control characters
  with a short escape take it; every other character outside \<open>' '\<close> to \<open>'~'\<close> becomes
  \<open>\u00XX\<close>.
\<close>

definition escape_char :: "char \<Rightarrow> string" where
  "escape_char c =
     (if c = CHR 0x22 then [CHR 0x5C, CHR 0x22]
      else if c = CHR 0x5C then [CHR 0x5C, CHR 0x5C]
      else if c = CHR 0x0A then [CHR 0x5C, CHR ''n'']
      else if c = CHR 0x0D then [CHR 0x5C, CHR ''r'']
      else if c = CHR 0x09 then [CHR 0x5C, CHR ''t'']
      else if c = CHR 0x0C then [CHR 0x5C, CHR ''f'']
      else if c = CHR 0x08 then [CHR 0x5C, CHR ''b'']
      else if (of_char c :: nat) < 32 \<or> 126 < (of_char c :: nat)
      then [CHR 0x5C, CHR ''u'', CHR ''0'', CHR ''0'',
            digit_char ((of_char c :: nat) div 16), digit_char ((of_char c :: nat) mod 16)]
      else [c])"

definition dumps_str :: "string \<Rightarrow> string" where
  "dumps_str s = CHR 0x22 # concat (map escape_char s) @ [CHR 0x22]"

text \<open>A line break and the indentation of nesting level \<open>l\<close>.\<close>

definition newline_indent :: "nat \<Rightarrow> string" where
  "newline_indent l = CHR 0x0A # replicate (2 * l) (CHR '' '')"

fun dumps_value :: "nat \<Rightarrow> json \<Rightarrow> string"
  and dumps_items :: "nat \<Rightarrow> json list \<Rightarrow> string"
  and dumps_pairs :: "nat \<Rightarrow> (string \<times> json) list \<Rightarrow> string"
where
  "dumps_value l JNull = ''null''"
| "dumps_value l (JBool b) = (if b then ''true'' else ''false'')"
| "dumps_value l (JInt i) = dumps_int i"
| "dumps_value l (JFloat f) = dumps_float f"
| "dumps_value l (JStr s) = dumps_str s"
| "dumps_value l (JArr xs) =
     (if xs = [] then ''[]''
      else ''['' @ newline_indent (Suc l) @ dumps_items (Suc l) xs @ newline_indent l @ '']'')"
| "dumps_value l (JObj kvs) =
     (if kvs = [] then ''{}''
      else ''{'' @ newline_indent (Suc l) @ dumps_pairs (Suc l) kvs @ newline_indent l @ ''}'')"
| "dumps_items l [] = []"
| "dumps_items l (x # xs) =
     dumps_value l x @ (if xs = [] then [] else '','' @ newline_indent l @ dumps_items l xs)"
| "dumps_pairs l [] = []"
| "dumps_pairs l (kv # kvs) =
     dumps_str (fst kv) @ '': '' @ dumps_value l (snd kv)
     @ (if kvs = [] then [] else '','' @ newline_indent l @ dumps_pairs l kvs)"

definition json_dumps :: "json \<Rightarrow> string" where
  "json_dumps v = dumps_value 0 v"

section \<open>The study agent\<close>

text \<open>
  \<open>SecurityStudyAgent\<close> holds the progress record (\<open>self.progress\<close>, whatever
  \<open>json.load\<close> returned or the default record) and works on the file system, of which
  the model keeps the text files by path. What the outside world supplies is a
  parameter of the operation that consumes it:
  \<^item> \<open>response\<close>, the outcome of \<open>self.model.generate_content(prompt)\<close> followed by
    \<open>response.text\<close>: \<open>Inr text\<close>, or \<open>Inl error_msg\<close> when either raised, \<open>error_msg\<close>
    being \<open>str(e)\<close> (the prompt goes to the hosted model and is not modelled);
  \<^item> \<open>now\<close>, the value of \<open>datetime.now().isoformat()\<close>;
  \<^item> \<open>stdin\<close>, the lines that \<open>input()\<close> will return.
  Printing is not modelled, apart from the warning that \<open>generate_quiz\<close> prints; the
  lookups that a \<open>print\<close> performs are, because they can raise.
\<close>

record agent =
  progress :: json
  files :: "string \<rightharpoonup> string"

definition progress_file :: string where
  "progress_file = ''study_progress.json''"

definition default_progress :: json where
  "default_progress =
     JObj [(''topics_studied'', JArr []),
           (''quiz_scores'', JArr []),
           (''total_questions'', JInt 0),
           (''correct_answers'', JInt 0)]"

text \<open>
  \<open>load_progress\<close>: the bare \<open>except\<close> catches whatever \<open>open\<close> or \<open>json.load\<close> raises.
\<close>

definition load_progress :: "agent \<Rightarrow> agent" where
  "load_progress a =
     (case files a progress_file of
        None \<Rightarrow> a\<lparr>progress := default_progress\<rparr>
      | Some content \<Rightarrow>
          (case json_loads content of
             Inr v \<Rightarrow> a\<lparr>progress := v\<rparr>
           | Inl e \<Rightarrow> a\<lparr>progress := default_progress\<rparr>))"

definition save_progress :: "agent \<Rightarrow> agent" where
  "save_progress a = a\<lparr>files := (files a)(progress_file \<mapsto> json_dumps (progress a))\<rparr>"

text \<open>
  The sign that opens the program's warnings is U+26A0 U+FE0F, outside the range of
  the string type; \<open>warning_sign\<close> stands for it.
\<close>

definition warning_sign :: string where
  "warning_sign = ''(!)''"

definition explain_concept ::
  "string + string \<Rightarrow> string \<Rightarrow> string \<Rightarrow> agent \<Rightarrow> py_error + string \<times> agent" where
  "explain_concept response now topic a =
     (case response of
        Inl error_msg \<Rightarrow>
          if py_in ''429'' error_msg \<or> py_in ''quota'' (py_lower error_msg)
             \<or> py_in ''rate'' (py_lower error_msg)
          then Inr (warning_sign @ '' API rate limit reached. Please wait a minute and try again, or check your API quota at https://ai.dev/usage'', a)
          else if py_in ''403'' error_msg \<or> py_in ''permission'' (py_lower error_msg)
          then Inr (warning_sign @ '' API access denied. Please check your API key is valid and has proper permissions.'', a)
          else Inr (warning_sign @ '' Error generating explanation: '' @ py_slice error_msg 0 100, a)
      | Inr explanation \<Rightarrow>
          and_then (py_getitem (progress a) ''topics_studied'') (\<lambda>studied.
          and_then (py_iter studied) (\<lambda>entries.
          and_then (py_map (\<lambda>t. py_getitem t ''topic'') entries) (\<lambda>topics.
          if JStr topic \<notin> set topics then
            and_then (py_append studied (JObj [(''topic'', JStr topic), (''date'', JStr now)]))
              (\<lambda>studied'.
            and_then (py_setitem (progress a) ''topics_studied'' studied') (\<lambda>p.
            Inr (explanation, save_progress (a\<lparr>progress := p\<rparr>))))
          else Inr (explanation, a)))))"

text \<open>
  \<open>generate_quiz\<close> returns the quiz and, here, the warning it printed if the model
  call failed. Only \<open>json.JSONDecodeError\<close> is caught around \<open>json.loads\<close>.
\<close>

definition generate_quiz :: "string + string \<Rightarrow> string \<Rightarrow> py_error + string option \<times> json" where
  "generate_quiz response topic =
     (case response of
        Inl error_msg \<Rightarrow>
          if py_in ''429'' error_msg \<or> py_in ''quota'' (py_lower error_msg)
             \<or> py_in ''rate'' (py_lower error_msg)
          then Inr (Some (warning_sign @ '' API rate limit reached. Please wait a minute and try again.''), JArr [])
          else if py_in ''403'' error_msg \<or> py_in ''permission'' (py_lower error_msg)
          then Inr (Some (warning_sign @ '' API access denied. Please check your API key.''), JArr [])
          else Inr (Some (warning_sign @ '' Error generating quiz: '' @ py_slice error_msg 0 100), JArr [])
      | Inr text \<Rightarrow>
          (let start = py_find text (CHR ''['');
               stop = py_rfind text (CHR '']'') + 1
           in if start \<noteq> - 1 \<and> stop \<noteq> 0 then
                (case json_loads (py_slice text start stop) of
                   Inr quiz_data \<Rightarrow> Inr (None, quiz_data)
                 | Inl e \<Rightarrow> if e = JSONDecodeError then Inr (None, JArr []) else Inl e)
              else Inr (None, JArr [])))"

text \<open>
  The loop of \<open>take_quiz\<close> over the questions: it returns the score and the lines of
  \<open>stdin\<close> left. \<open>input()\<close> raises \<open>EOFError\<close> when no line is left.
\<close>

fun ask_questions :: "json list \<Rightarrow> string list \<Rightarrow> int \<Rightarrow> py_error + int \<times> string list" where
  "ask_questions [] stdin score = Inr (score, stdin)"
| "ask_questions (q # qs) stdin score =
     and_then (py_getitem q ''question'') (\<lambda>question.
     and_then (py_getitem q ''options'') (\<lambda>options.
     and_then (py_iter options) (\<lambda>shown.
     (case stdin of
        [] \<Rightarrow> Inl EOFError
      | line # rest \<Rightarrow>
          (let answer = py_upper (py_strip line)
           in and_then (py_getitem q ''correct'') (\<lambda>correct.
              and_then (py_getitem q ''explanation'') (\<lambda>explanation.
              ask_questions qs rest (if JStr answer = correct then score + 1 else score))))))))"

definition take_quiz ::
  "string \<Rightarrow> json \<Rightarrow> string list \<Rightarrow> agent \<Rightarrow> py_error + (int \<times> int) \<times> string list \<times> agent" where
  "take_quiz now quiz_data stdin a =
     and_then (py_iter quiz_data) (\<lambda>questions.
     and_then (ask_questions questions stdin 0) (\<lambda>(score, rest).
     and_then (py_len quiz_data) (\<lambda>n.
     and_then (py_truediv score n) (\<lambda>ratio.
     (let accuracy = float_mul ratio 100
      in and_then (py_getitem (progress a) ''quiz_scores'') (\<lambda>scores.
         and_then (py_append scores
                     (JObj [(''date'', JStr now), (''score'', JInt score),
                            (''total'', JInt n), (''accuracy'', JFloat accuracy)])) (\<lambda>scores'.
         and_then (py_setitem (progress a) ''quiz_scores'' scores') (\<lambda>p1.
         and_then (py_getitem p1 ''total_questions'') (\<lambda>total.
         and_then (py_iadd total n) (\<lambda>total'.
         and_then (py_setitem p1 ''total_questions'' total') (\<lambda>p2.
         and_then (py_getitem p2 ''correct_answers'') (\<lambda>correct.
         and_then (py_iadd correct score) (\<lambda>correct'.
         and_then (py_setitem p2 ''correct_answers'' correct') (\<lambda>p3.
         Inr ((score, n), rest, save_progress (a\<lparr>progress := p3\<rparr>))))))))))))))))"



text \<open>
  The \<open>quiz\<close> branch of the loop, after the topic is known: \<open>generate_quiz\<close>, then
  \<open>take_quiz\<close> if the quiz is true in Python's sense, then the final score, for which
  \<open>score/total*100\<close> is computed once more.
\<close>

definition chat_quiz ::
  "string + string \<Rightarrow> string \<Rightarrow> string \<Rightarrow> string list \<Rightarrow> agent \<Rightarrow> py_error + string list \<times> agent" where
  "chat_quiz response now topic stdin a =
     and_then (generate_quiz response topic) (\<lambda>(warning, quiz_data).
     if py_truthy quiz_data then
       and_then (take_quiz now quiz_data stdin a) (\<lambda>((score, total), rest, a').
       and_then (py_truediv score total) (\<lambda>ratio.
       Inr (rest, a')))
     else Inr (stdin, a))"

section \<open>Notions of the specification\<close>

text \<open>
  The specification's words for properties of the inputs, to compare the program with.
\<close>

text \<open>
  An error text mentions a word, whatever the case of its letters: a contiguous run
  of the text is the word once lower-cased.
\<close>

definition mentions :: "string \<Rightarrow> string \<Rightarrow> bool" where
  "mentions w e = (\<exists>u. sublist u e \<and> py_lower u = w)"



text \<open>
  The data model of the specification. A field of a record is read with \<open>field\<close>
  (\<open>JNull\<close> when the record has none); \<open>has_keys\<close> says which keys a record has.
\<close>

definition field :: "json \<Rightarrow> string \<Rightarrow> json" where
  "field v key = (case py_getitem v key of Inr x \<Rightarrow> x | Inl e \<Rightarrow> JNull)"

definition has_keys :: "json \<Rightarrow> string list \<Rightarrow> bool" where
  "has_keys v ks =
     (case v of JObj kvs \<Rightarrow> distinct (map fst kvs) \<and> set (map fst kvs) = set ks | _ \<Rightarrow> False)"

fun is_str :: "json \<Rightarrow> bool" where
  "is_str (JStr s) = True"
| "is_str _ = False"

fun is_int :: "json \<Rightarrow> bool" where
  "is_int (JInt i) = True"
| "is_int _ = False"

fun int_of :: "json \<Rightarrow> int" where
  "int_of (JInt i) = i"
| "int_of _ = 0"

fun items_of :: "json \<Rightarrow> json list" where
  "items_of (JArr xs) = xs"
| "items_of _ = []"

text \<open>A rational is (the value of) a float when rounding leaves it as it is.\<close>

definition is_double :: "rat \<Rightarrow> bool" where
  "is_double x = (double_round x = Finite x)"

fun is_float :: "json \<Rightarrow> bool" where
  "is_float (JFloat (Finite x)) = is_double x"
| "is_float _ = False"

fun is_list_of :: "(json \<Rightarrow> bool) \<Rightarrow> json \<Rightarrow> bool" where
  "is_list_of P (JArr xs) = list_all P xs"
| "is_list_of P _ = False"

text \<open>
  QuizQuestion: \<open>question\<close>, a string; \<open>options\<close>, four strings; \<open>correct\<close>, one of
  \<open>A\<close>, \<open>B\<close>, \<open>C\<close>, \<open>D\<close>; \<open>explanation\<close>, a string.
\<close>

definition is_quiz_question :: "json \<Rightarrow> bool" where
  "is_quiz_question q =
     (has_keys q [''question'', ''options'', ''correct'', ''explanation'']
      \<and> is_str (field q ''question'')
      \<and> is_list_of is_str (field q ''options'') \<and> length (items_of (field q ''options'')) = 4
      \<and> field q ''correct'' \<in> set [JStr ''A'', JStr ''B'', JStr ''C'', JStr ''D'']
      \<and> is_str (field q ''explanation''))"

text \<open>
  ProgressRecord: \<open>topics_studied\<close>, a sequence of \<open>{topic, date}\<close>; \<open>quiz_scores\<close>, a
  sequence of \<open>{date, score, total, accuracy}\<close>; \<open>total_questions\<close> and
  \<open>correct_answers\<close>, integers.
\<close>

definition is_topic_entry :: "json \<Rightarrow> bool" where
  "is_topic_entry t =
     (has_keys t [''topic'', ''date''] \<and> is_str (field t ''topic'') \<and> is_str (field t ''date''))"

definition is_quiz_score :: "json \<Rightarrow> bool" where
  "is_quiz_score s =
     (has_keys s [''date'', ''score'', ''total'', ''accuracy'']
      \<and> is_str (field s ''date'') \<and> is_int (field s ''score'') \<and> is_int (field s ''total'')
      \<and> is_float (field s ''accuracy''))"

definition is_progress_record :: "json \<Rightarrow> bool" where
  "is_progress_record r =
     (has_keys r [''topics_studied'', ''quiz_scores'', ''total_questions'', ''correct_answers'']
      \<and> is_list_of is_topic_entry (field r ''topics_studied'')
      \<and> is_list_of is_quiz_score (field r ''quiz_scores'')
      \<and> is_int (field r ''total_questions'')
      \<and> is_int (field r ''correct_answers''))"

text \<open>The invariant of the record: no more correct answers than questions.\<close>

definition counts_ok :: "json \<Rightarrow> bool" where
  "counts_ok r =
     (is_int (field r ''total_questions'') \<and> is_int (field r ''correct_answers'')
      \<and> int_of (field r ''correct_answers'') \<le> int_of (field r ''total_questions''))"

text \<open>
  The number of questions answered correctly, when the lines typed are \<open>stdin\<close>: the
  answer to a question is the line, stripped and in upper case.
\<close>

fun correct_count :: "json list \<Rightarrow> string list \<Rightarrow> nat" where
  "correct_count (q # qs) (line # rest) =
     (if field q ''correct'' = JStr (py_upper (py_strip line)) then 1 else 0)
     + correct_count qs rest"
| "correct_count _ _ = 0"

text \<open>
  The part of a text from its first \<open>[\<close> to its last \<open>]\<close>; it is empty when the text
  has no \<open>]\<close> after its first \<open>[\<close>.
\<close>

definition bracketed :: "string \<Rightarrow> string" where
  "bracketed text =
     dropWhile (\<lambda>c. c \<noteq> CHR ''['') (rev (dropWhile (\<lambda>c. c \<noteq> CHR '']'') (rev text)))"

text \<open>
  The agents a session can reach: it starts without a progress file, and every step
  is a successful \<open>explain_concept\<close> or a successful \<open>take_quiz\<close>, on any topic, model
  response, quiz and answers.
\<close>

inductive session :: "agent \<Rightarrow> bool" where
  fresh: "files a progress_file = None \<Longrightarrow> session (load_progress a)"
| explained:
    "session a \<Longrightarrow> explain_concept response now topic a = Inr (reply, a') \<Longrightarrow> session a'"
| quizzed:
    "session a \<Longrightarrow> take_quiz now quiz_data stdin a = Inr (result, rest, a') \<Longrightarrow> session a'"

section \<open>Strings\<close>

lemma py_in_sublist: "py_in needle s \<longleftrightarrow> sublist needle s"
  by (induction s) (auto simp: sublist_Cons_right)

lemma sublist_map_iff: "sublist ys (map f xs) \<longleftrightarrow> (\<exists>w. sublist w xs \<and> map f w = ys)"
proof
  assume "sublist ys (map f xs)"
  then obtain ps ss where "map f xs = ps @ ys @ ss" by (auto simp: sublist_def)
  then obtain us vs where xs: "xs = us @ vs" and "ys @ ss = map f vs"
    by (auto simp: map_eq_append_conv)
  then obtain w ss' where "vs = w @ ss'" "map f w = ys"
    by (metis append_eq_map_conv)
  with xs show "\<exists>w. sublist w xs \<and> map f w = ys" by auto
next
  assume "\<exists>w. sublist w xs \<and> map f w = ys"
  then obtain w ps ss where "xs = ps @ w @ ss" "map f w = ys" by (auto simp: sublist_def)
  then have "map f xs = map f ps @ ys @ map f ss" by simp
  then show "sublist ys (map f xs)" unfolding sublist_def by blast
qed

lemma py_slice_prefix: "0 \<le> k \<Longrightarrow> py_slice s 0 k = take (nat k) s"
  by (auto simp: py_slice_def slice_bound_def Let_def min_def)

lemma sublist_lower: "sublist w (py_lower e) \<longleftrightarrow> mentions w e"
  by (simp add: py_lower_def sublist_map_iff mentions_def)




lemma find_from_eq:
  "find_from i c s = (if c \<in> set s then i + int (length (takeWhile (\<lambda>x. x \<noteq> c) s)) else - 1)"
  by (induction s arbitrary: i) auto

lemma py_find_eq:
  "py_find s c = (if c \<in> set s then int (length (takeWhile (\<lambda>x. x \<noteq> c) s)) else - 1)"
  by (simp add: py_find_def find_from_eq)

lemma rfind_from_eq:
  "rfind_from i found c s =
     (if c \<in> set s then i + int (length s) - 1 - int (length (takeWhile (\<lambda>x. x \<noteq> c) (rev s)))
      else found)"
proof (induction s arbitrary: i found)
  case Nil
  then show ?case by simp
next
  case (Cons x xs)
  show ?case
  proof (cases "c \<in> set xs")
    case True
    then have "takeWhile (\<lambda>x. x \<noteq> c) (rev xs @ [x]) = takeWhile (\<lambda>x. x \<noteq> c) (rev xs)"
      by (subst takeWhile_append1[where x = "c"]) (auto simp add: takeWhile_append1)
    with True show ?thesis by (simp add: Cons.IH)
  next
    case False
    then have tw: "takeWhile (\<lambda>x. x \<noteq> c) (rev xs @ [x]) = rev xs @ takeWhile (\<lambda>x. x \<noteq> c) [x]"
      by (intro takeWhile_append2) auto
    show ?thesis
    proof (cases "x = c")
      case True
      with tw have "length (takeWhile (\<lambda>x. x \<noteq> c) (rev xs @ [x])) = length xs" by simp
      with True False show ?thesis by (simp add: Cons.IH)
    next
      case ne: False
      with False show ?thesis by (simp add: Cons.IH)
    qed
  qed
qed

lemma py_rfind_eq:
  "py_rfind s c =
     (if c \<in> set s then int (length s) - 1 - int (length (takeWhile (\<lambda>x. x \<noteq> c) (rev s)))
      else - 1)"
  by (simp add: py_rfind_def rfind_from_eq)

lemma py_slice_nonneg:
  "0 \<le> i \<Longrightarrow> 0 \<le> j \<Longrightarrow> py_slice s i j = drop (nat i) (take (nat j) s)"
  by (auto simp: py_slice_def slice_bound_def Let_def drop_take min_def)

lemma takeWhile_shorter: "x \<in> set xs \<Longrightarrow> \<not> P x \<Longrightarrow> length (takeWhile P xs) < length xs"
  by (induction xs) auto

lemma dropWhile_head: "dropWhile P xs = c # cs \<Longrightarrow> \<not> P c"
  by (induction xs) (auto split: if_splits)


lemma bracketed_absent:
  assumes "CHR ''['' \<notin> set text \<or> CHR '']'' \<notin> set text"
  shows "bracketed text = []"
proof (cases "CHR '']'' \<in> set text")
  case False
  then have "dropWhile (\<lambda>c. c \<noteq> CHR '']'') (rev text) = []" by auto
  then show ?thesis by (simp add: bracketed_def del: dropWhile_eq_Nil_conv)
next
  case True
  with assms have no: "CHR ''['' \<notin> set text" by simp
  have "set (rev (dropWhile (\<lambda>c. c \<noteq> CHR '']'') (rev text))) \<subseteq> set text"
    using set_dropWhileD by fastforce
  with no have "\<forall>x\<in>set (rev (dropWhile (\<lambda>c. c \<noteq> CHR '']'') (rev text))). x \<noteq> CHR ''[''"
    by auto
  then show ?thesis unfolding bracketed_def by (simp only: dropWhile_eq_Nil_conv)
qed

lemma bracketed_head: "bracketed text = [] \<or> (\<exists>s. bracketed text = CHR ''['' # s)"
proof (cases "bracketed text")
  case Nil
  then show ?thesis by simp
next
  case (Cons c cs)
  then have "\<not> c \<noteq> CHR ''[''" unfolding bracketed_def by (rule dropWhile_head)
  with Cons show ?thesis by simp
qed

lemma extracted_is_bracketed:
  assumes "CHR ''['' \<in> set text" "CHR '']'' \<in> set text"
  shows "py_slice text (py_find text (CHR ''['')) (py_rfind text (CHR '']'') + 1) = bracketed text"
proof -
  define p where "p = (\<lambda>c. c \<noteq> CHR '']'')"
  define q where "q = (\<lambda>c. c \<noteq> CHR ''['')"
  define T where "T = takeWhile p (rev text)"
  define U where "U = rev (dropWhile p (rev text))"
  have "rev text = T @ dropWhile p (rev text)" by (simp add: T_def)
  then have "rev (rev text) = rev (T @ dropWhile p (rev text))" by simp
  then have split_text: "text = U @ rev T" by (simp add: U_def)
  then have lenU: "length U = length text - length T" by simp
  have lenT: "length T < length text"
  proof -
    have "length T < length (rev text)"
      unfolding T_def using assms(2)
      by (intro takeWhile_shorter[where x = "CHR '']''"]) (auto simp: p_def)
    then show ?thesis by simp
  qed
  have start: "py_find text (CHR ''['') = int (length (takeWhile q text))"
    using assms(1) by (simp add: py_find_eq q_def)
  have stop: "py_rfind text (CHR '']'') + 1 = int (length U)"
    using assms(2) lenT by (simp add: py_rfind_eq lenU T_def p_def)
  have takeU: "take (length U) text = U" by (simp add: split_text)
  have "py_slice text (py_find text (CHR ''['')) (py_rfind text (CHR '']'') + 1)
          = drop (length (takeWhile q text)) U"
    by (simp add: start stop py_slice_nonneg takeU)
  also have "\<dots> = dropWhile q U"
  proof (cases "CHR ''['' \<in> set U")
    case True
    then have "takeWhile q text = takeWhile q U"
      unfolding split_text by (intro takeWhile_append1[where x = "CHR ''[''"]) (auto simp: q_def)
    then show ?thesis by (simp add: dropWhile_eq_drop)
  next
    case False
    then have all: "\<forall>x\<in>set U. q x" by (auto simp: q_def)
    then have "takeWhile q text = U @ takeWhile q (rev T)"
      unfolding split_text by (intro takeWhile_append2) auto
    moreover have "dropWhile q U = []" using all by simp
    ultimately show ?thesis by (simp del: dropWhile_eq_Nil_conv)
  qed
  finally show ?thesis by (simp add: bracketed_def U_def p_def q_def)
qed

section \<open>Failures of the model call\<close>

text \<open>
  Claim C7. When the model call fails, both \<open>explain_concept\<close> and \<open>generate_quiz\<close>
  choose their message from the error text alone: the rate-limit message if the text
  contains \<open>429\<close> or mentions \<open>quota\<close> or \<open>rate\<close> in any case of letters; otherwise the
  access-denied message if it contains \<open>403\<close> or mentions \<open>permission\<close>; otherwise a
  generic message that ends with the first 100 characters of the text. Neither the
  topic nor the progress record plays a part, and the record is left as it was.
\<close>

theorem failure_classified_by_text:
  "explain_concept (Inl e) now topic a =
     Inr (if sublist ''429'' e \<or> mentions ''quota'' e \<or> mentions ''rate'' e
          then warning_sign @ '' API rate limit reached. Please wait a minute and try again, or check your API quota at https://ai.dev/usage''
          else if sublist ''403'' e \<or> mentions ''permission'' e
          then warning_sign @ '' API access denied. Please check your API key is valid and has proper permissions.''
          else warning_sign @ '' Error generating explanation: '' @ take 100 e, a)
   \<and> generate_quiz (Inl e) topic =
     Inr (Some (if sublist ''429'' e \<or> mentions ''quota'' e \<or> mentions ''rate'' e
                then warning_sign @ '' API rate limit reached. Please wait a minute and try again.''
                else if sublist ''403'' e \<or> mentions ''permission'' e
                then warning_sign @ '' API access denied. Please check your API key.''
                else warning_sign @ '' Error generating quiz: '' @ take 100 e), JArr [])"
  by (simp add: explain_concept_def generate_quiz_def sublist_lower py_in_sublist py_slice_prefix
           del: py_in.simps)

section \<open>Operations on Python values\<close>

lemma and_then_Inr_iff:
  "and_then m f = Inr y \<longleftrightarrow> (\<exists>x. m = Inr x \<and> f x = Inr y)"
  by (cases m) (auto simp: and_then_def)

lemma and_then_Inl_iff:
  "and_then m f = Inl e \<longleftrightarrow> m = Inl e \<or> (\<exists>x. m = Inr x \<and> f x = Inl e)"
  by (cases m) (auto simp: and_then_def)


lemma py_map_length: "py_map f xs = Inr ys \<Longrightarrow> length ys = length xs"
  by (induction xs arbitrary: ys) (auto split: sum.splits)

lemma py_getitem_Inr_iff:
  "py_getitem v key = Inr x \<longleftrightarrow> (\<exists>kvs. v = JObj kvs \<and> map_of kvs key = Some x)"
  by (cases v) (auto split: option.splits)

lemma py_getitem_setitem:
  "py_setitem v key x = Inr v' \<Longrightarrow>
     py_getitem v' key' = (if key' = key then Inr x else py_getitem v key')"
  by (cases v) (auto simp: update_conv')

lemma py_append_Inr_iff: "py_append v x = Inr v' \<longleftrightarrow> (\<exists>xs. v = JArr xs \<and> v' = JArr (xs @ [x]))"
  by (cases v) auto

lemma py_setitem_Inr_iff:
  "py_setitem v key x = Inr v' \<longleftrightarrow> (\<exists>kvs. v = JObj kvs \<and> v' = JObj (AList.update key x kvs))"
  by (cases v) auto


lemma has_keys_getitem:
  "has_keys v ks \<Longrightarrow> k \<in> set ks \<Longrightarrow> py_getitem v k = Inr (field v k)"
proof -
  assume h: "has_keys v ks" and k: "k \<in> set ks"
  then obtain kvs where v: "v = JObj kvs" "set (map fst kvs) = set ks"
    by (cases v) (auto simp: has_keys_def)
  with k have "k \<in> fst ` set kvs" by auto
  then have "map_of kvs k \<noteq> None" by (simp add: map_of_eq_None_iff)
  then obtain x where "map_of kvs k = Some x" by blast
  with v show ?thesis by (simp add: field_def)
qed

lemma is_list_of_iter: "is_list_of P v \<Longrightarrow> py_iter v = Inr (items_of v)"
  by (cases v) auto

lemma py_getitem_no_zde: "py_getitem v k \<noteq> Inl ZeroDivisionError"
  by (cases v) (auto split: option.splits)

lemma py_setitem_no_zde: "py_setitem v k x \<noteq> Inl ZeroDivisionError"
  by (cases v) auto

lemma py_iter_no_zde: "py_iter v \<noteq> Inl ZeroDivisionError"
  by (cases v) auto

lemma py_len_no_zde: "py_len v \<noteq> Inl ZeroDivisionError"
  by (cases v) auto

lemma py_append_no_zde: "py_append v x \<noteq> Inl ZeroDivisionError"
  by (cases v) auto

lemma py_iadd_no_zde: "py_iadd v n \<noteq> Inl ZeroDivisionError"
  by (cases v) (auto simp: float_of_int_def split: sum.splits pyfloat.splits)

lemma py_truediv_zde: "py_truediv a b = Inl ZeroDivisionError \<longleftrightarrow> b = 0"
  by (auto simp: py_truediv_def split: pyfloat.splits)

lemma py_len_truthy: "py_truthy v \<Longrightarrow> py_len v \<noteq> Inr 0"
  by (cases v) auto


section \<open>Rounding to a float\<close>

lemma pow2_powi: "pow2 k = 2 powi k"
  by (simp add: pow2_def power_int_def inverse_eq_divide power_one_over)

lemma pow2_pos [simp]: "0 < pow2 k"
  by (simp add: pow2_powi)

lemma pow2_add: "pow2 (a + b) = pow2 a * pow2 b"
  by (simp add: pow2_powi power_int_add)

lemma pow2_diff: "pow2 (a - b) = pow2 a / pow2 b"
  by (simp add: pow2_powi power_int_diff)

lemma pow2_mono: "a \<le> b \<Longrightarrow> pow2 a \<le> pow2 b"
  by (simp add: pow2_powi power_int_increasing)

lemma pow2_nat: "pow2 (int n) = 2 ^ n"
  by (simp add: pow2_def)

lemma pow2_less_cancel: "pow2 a < pow2 b \<Longrightarrow> a < b"
  by (metis not_le pow2_mono)

lemma pow2_split: "a = b + c \<Longrightarrow> pow2 a = pow2 b * pow2 c"
  by (simp add: pow2_add)

lemma pow2_53: "pow2 53 = of_int (2 ^ 53)"
  by (simp add: pow2_def)

lemma bit_length_bounds: "0 < n \<Longrightarrow> 2 ^ (bit_length n - 1) \<le> n \<and> n < 2 ^ bit_length n"
proof (induction n rule: bit_length.induct)
  case (1 n)
  show ?case
  proof (cases "n div 2 = 0")
    case True
    with "1.prems" have "n = 1" by (simp add: div_eq_0_iff) 
    then show ?thesis by (simp add: bit_length.simps[of "Suc 0"] bit_length.simps[of 0])
  next
    case False
    then have pos: "0 < n div 2" by simp
    with "1.IH" "1.prems" have ih: "2 ^ (bit_length (n div 2) - 1) \<le> n div 2" "n div 2 < 2 ^ bit_length (n div 2)"
      by auto
    have bl: "bit_length n = Suc (bit_length (n div 2))"
      using "1.prems" by (subst bit_length.simps) simp
    have "0 < bit_length (n div 2)" using pos by (subst bit_length.simps) simp
    then have "(2::nat) ^ bit_length (n div 2) = 2 * 2 ^ (bit_length (n div 2) - 1)"
      by (cases "bit_length (n div 2)") simp_all
    with ih(1) have "2 ^ bit_length (n div 2) \<le> n" by linarith
    moreover have "n < 2 * 2 ^ bit_length (n div 2)" using ih(2) by linarith
    ultimately show ?thesis by (simp add: bl)
  qed
qed

lemma ilog2_bounds:
  assumes "0 < x"
  shows "pow2 (ilog2 x) \<le> x" and "x < pow2 (ilog2 x + 1)"
proof -
  obtain p q where pq: "quotient_of x = (p, q)" by (cases "quotient_of x")
  then have q: "0 < q" and x: "x = of_int p / of_int q"
    by (auto simp: quotient_of_denom_pos quotient_of_div)
  with assms have p: "0 < p" by (simp add: zero_less_divide_iff)
  define bp where "bp = bit_length (nat p)"
  define bq where "bq = bit_length (nat q)"
  define k where "k = int bp - int bq"
  from bit_length_bounds[of "nat p"] p
  have "(2::nat) ^ (bp - 1) \<le> nat p" "nat p < 2 ^ bp" by (auto simp: bp_def)
  then have "of_nat ((2::nat) ^ (bp - 1)) \<le> (of_nat (nat p) :: rat)" "(of_nat (nat p) :: rat) < of_nat (2 ^ bp)"
    by (simp_all only: of_nat_le_iff of_nat_less_iff)
  with p have pb: "(2::rat) ^ (bp - 1) \<le> of_int p" "(of_int p :: rat) < 2 ^ bp" by simp_all
  from bit_length_bounds[of "nat q"] q
  have "(2::nat) ^ (bq - 1) \<le> nat q" "nat q < 2 ^ bq" by (auto simp: bq_def)
  then have "of_nat ((2::nat) ^ (bq - 1)) \<le> (of_nat (nat q) :: rat)" "(of_nat (nat q) :: rat) < of_nat (2 ^ bq)"
    by (simp_all only: of_nat_le_iff of_nat_less_iff)
  with q have qb: "(2::rat) ^ (bq - 1) \<le> of_int q" "(of_int q :: rat) < 2 ^ bq" by simp_all
  have bp0: "0 < bp" using p unfolding bp_def by (subst bit_length.simps) simp
  have bq0: "0 < bq" using q unfolding bq_def by (subst bit_length.simps) simp
  have qr: "(0::rat) < of_int q" using q by simp
  \<comment> \<open>upper bound\<close>
  have "x * of_int q = of_int p" using x qr by simp
  also have "\<dots> < 2 ^ bp" by (rule pb(2))
  also have "(2::rat) ^ bp = pow2 (k + 1) * 2 ^ (bq - 1)"
  proof -
    have "pow2 (k + 1) * 2 ^ (bq - 1) = pow2 (k + 1) * pow2 (int (bq - 1))" by (simp add: pow2_nat)
    also have "\<dots> = pow2 (k + 1 + int (bq - 1))" by (simp add: pow2_add)
    also have "k + 1 + int (bq - 1) = int bp" using bq0 by (simp add: k_def)
    finally show ?thesis by (simp add: pow2_nat)
  qed
  also have "\<dots> \<le> pow2 (k + 1) * of_int q" using qb(1) by simp
  finally have up: "x < pow2 (k + 1)" using qr by simp
  \<comment> \<open>lower bound\<close>
  have "pow2 (k - 1) * of_int q < pow2 (k - 1) * 2 ^ bq" using qb(2) by simp
  also have "\<dots> = 2 ^ (bp - 1)"
  proof -
    have "pow2 (k - 1) * 2 ^ bq = pow2 (k - 1 + int bq)" by (simp add: pow2_add pow2_nat)
    also have "k - 1 + int bq = int (bp - 1)" using bp0 by (simp add: k_def)
    finally show ?thesis by (simp add: pow2_nat)
  qed
  also have "\<dots> \<le> of_int p" by (rule pb(1))
  also have "\<dots> = x * of_int q" using x qr by simp
  finally have lo: "pow2 (k - 1) < x" using qr by simp
  have il: "ilog2 x = (if pow2 k \<le> x then k else k - 1)"
    by (simp add: ilog2_def pq k_def bp_def bq_def Let_def)
  show "pow2 (ilog2 x) \<le> x" using lo by (simp add: il)
  show "x < pow2 (ilog2 x + 1)" using up by (auto simp: il not_le)
qed

lemma round_half_even_error: "\<bar>of_int (round_half_even y) - y\<bar> \<le> 1 / 2"
proof -
  have "of_int \<lfloor>y\<rfloor> \<le> y" "y < of_int \<lfloor>y\<rfloor> + 1" by linarith+
  then show ?thesis by (auto simp: round_half_even_def Let_def abs_le_iff)
qed

lemma round_half_even_int [simp]: "round_half_even (of_int m) = m"
  by (simp add: round_half_even_def)

lemma round_half_even_le: "y \<le> of_int m \<Longrightarrow> round_half_even y \<le> m"
proof -
  assume a: "y \<le> of_int m"
  have f: "\<lfloor>y\<rfloor> \<le> m" using a by (metis floor_mono floor_of_int)
  show ?thesis
  proof (cases "\<lfloor>y\<rfloor> = m")
    case True
    then have "y = of_int m" using a by linarith 
    then show ?thesis by simp
  next
    case False
    with f have "\<lfloor>y\<rfloor> + 1 \<le> m" by simp
    then show ?thesis by (auto simp: round_half_even_def Let_def)
  qed
qed

lemma round_half_even_ge: "of_int m \<le> y \<Longrightarrow> m \<le> round_half_even y"
proof -
  assume "of_int m \<le> y"
  then have "m \<le> \<lfloor>y\<rfloor>" by (simp add: le_floor_iff)
  then show ?thesis by (auto simp: round_half_even_def Let_def)
qed

lemma double_round_pos:
  assumes "0 < x" "x < pow2 1023"
  defines "e \<equiv> max (ilog2 x) (- 1022)"
  shows "\<exists>r. double_round x = Finite r \<and> 0 \<le> r \<and> \<bar>r - x\<bar> \<le> pow2 (e - 53) \<and> r \<le> pow2 (e + 1)"
proof -
  define q where "q = pow2 (e - 52)"
  define m where "m = round_half_even (x / q)"
  define r where "r = of_int m * q"
  have q0: "0 < q" by (simp add: q_def)
  have il: "ilog2 x < 1023"
    using ilog2_bounds(1)[OF assms(1)] assms(2) by (intro pow2_less_cancel) simp
  then have e: "e \<le> 1022" by (simp add: e_def)
  have "x < pow2 (ilog2 x + 1)" by (rule ilog2_bounds(2)[OF assms(1)])
  also have "\<dots> \<le> pow2 (e + 1)" by (intro pow2_mono) (simp add: e_def)
  finally have xe: "x < pow2 (e + 1)" .
  have split: "pow2 (e + 1) = pow2 53 * q" unfolding q_def by (rule pow2_split) simp
  with xe q0 have "x / q < pow2 53" by (simp add: pos_divide_less_eq)
  then have "x / q \<le> of_int (2 ^ 53)" by (simp only: pow2_53)
  then have m_le: "m \<le> 2 ^ 53" unfolding m_def by (rule round_half_even_le)
  have "of_int 0 \<le> x / q" using assms(1) q0 by simp
  then have m_ge: "0 \<le> m" unfolding m_def by (rule round_half_even_ge)
  have "(of_int m :: rat) \<le> of_int (2 ^ 53)" using m_le by (simp only: of_int_le_iff)
  then have "r \<le> of_int (2 ^ 53) * q" unfolding r_def using q0
    by (intro mult_right_mono) simp_all
  also have "of_int (2 ^ 53) * q = pow2 (e + 1)"
    by (simp only: split pow2_53)
  finally have r_le: "r \<le> pow2 (e + 1)" .
  also have "\<dots> \<le> pow2 1023" using e by (intro pow2_mono) simp
  also have "\<dots> < pow2 1024" by (simp add: pow2_def)
  finally have fin: "\<not> pow2 1024 \<le> r" by simp
  have r0: "0 \<le> r" using m_ge q0 by (simp add: r_def)
  have "\<bar>of_int m - x / q\<bar> \<le> 1 / 2" unfolding m_def by (rule round_half_even_error)
  then have "\<bar>of_int m - x / q\<bar> * q \<le> 1 / 2 * q" using q0 by (intro mult_right_mono) simp_all
  moreover have "\<bar>of_int m - x / q\<bar> * q = \<bar>r - x\<bar>"
  proof -
    have "\<bar>of_int m - x / q\<bar> * q = \<bar>(of_int m - x / q) * q\<bar>"
      using q0 by (simp add: abs_mult)
    also have "(of_int m - x / q) * q = r - x"
      using q0 by (simp add: r_def left_diff_distrib)
    finally show ?thesis .
  qed
  moreover have "1 / 2 * q = pow2 (e - 53)"
  proof -
    have "pow2 (e - 53) = pow2 (e - 52) * pow2 (- 1)" by (rule pow2_split) simp
    then show ?thesis by (simp add: q_def pow2_def[of "- 1"])
  qed
  ultimately have err: "\<bar>r - x\<bar> \<le> pow2 (e - 53)" by simp
  have "double_round x = Finite r"
    using assms(1) fin by (simp add: double_round_def Let_def e_def q_def m_def r_def)
  with r0 err r_le show ?thesis by blast
qed

section \<open>The decoder\<close>

subsection \<open>Every scanner consumes what it accepts\<close>

lemma length_skip_ws: "length (skip_ws s) \<le> length s"
  by (simp add: skip_ws_def length_dropWhile_le)

lemma skip_ws_Cons: "skip_ws s = c # cs \<Longrightarrow> length cs < length s"
  using length_skip_ws[of s] by simp

lemma cons_result_Some:
  "cons_result c r = Some (x, rest) \<longleftrightarrow> (\<exists>x'. r = Some (x', rest) \<and> x = c # x')"
  by (auto simp: cons_result_def split: option.splits)

lemma scan_string_cases:
  assumes "scan_string (c # cs) = Some (x, rest)"
  shows "(c = CHR 0x22 \<and> x = [] \<and> rest = cs)
       \<or> (c = CHR 0x5C \<and> (\<exists>h3 h2 h1 h0 r n x'. cs = CHR ''u'' # h3 # h2 # h1 # h0 # r
              \<and> hex4 h3 h2 h1 h0 = Some n \<and> n < 256
              \<and> scan_string r = Some (x', rest) \<and> x = char_of n # x'))
       \<or> (c = CHR 0x5C \<and> (\<exists>e cs' ch x'. cs = e # cs' \<and> e \<noteq> CHR ''u'' \<and> unescape e = Some ch
              \<and> scan_string cs' = Some (x', rest) \<and> x = ch # x'))
       \<or> (c \<noteq> CHR 0x22 \<and> c \<noteq> CHR 0x5C \<and> \<not> (of_char c :: nat) < 32
              \<and> (\<exists>x'. scan_string cs = Some (x', rest) \<and> x = c # x'))"
proof (cases "c = CHR 0x22")
  case True
  with assms show ?thesis by simp
next
  case nq: False
  show ?thesis
  proof (cases "c = CHR 0x5C")
    case False
    with nq assms show ?thesis by (simp add: cons_result_Some split: if_splits)
  next
    case True
    with assms obtain e cs' where cs: "cs = e # cs'" by (cases cs) auto
    show ?thesis
    proof (cases "e = CHR ''u''")
      case False
      with True cs assms show ?thesis
        by (simp add: cons_result_Some split: option.splits)
    next
      case u: True
      with True cs assms obtain h3 h2 h1 h0 r where r: "cs' = h3 # h2 # h1 # h0 # r"
        by (simp split: list.splits)
      with u True cs assms show ?thesis
        by (simp add: cons_result_Some split: option.splits if_splits)
    qed
  qed
qed

lemma scan_string_shorter: "scan_string s = Some (x, rest) \<Longrightarrow> length rest < length s"
proof (induction "length s" arbitrary: s x rest rule: less_induct)
  case less
  from less.prems obtain c cs where s: "s = c # cs" by (cases s) auto
  from scan_string_cases[OF less.prems[unfolded s]] show ?case
  proof (elim disjE conjE exE)
    fix h3 h2 h1 h0 r n x'
    assume "cs = CHR ''u'' # h3 # h2 # h1 # h0 # r" "scan_string r = Some (x', rest)"
    with less.hyps[of r x' rest] s show ?thesis by simp
  next
    fix e cs' ch x'
    assume "cs = e # cs'" "scan_string cs' = Some (x', rest)"
    with less.hyps[of cs' x' rest] s show ?thesis by simp
  next
    fix x'
    assume "scan_string cs = Some (x', rest)"
    with less.hyps[of cs x' rest] s show ?thesis by simp
  qed (simp add: s)
qed

lemma scan_int_part_shorter: "scan_int_part s = Some (ds, rest) \<Longrightarrow> length rest < length s"
  by (auto simp: scan_int_part_def less_Suc_eq_le length_dropWhile_le split: list.splits if_splits)

lemma scan_frac_shorter: "scan_frac s = Some (ds, rest) \<Longrightarrow> length rest \<le> length s"
  by (auto simp: scan_frac_def le_SucI length_dropWhile_le split: list.splits if_splits)

lemma scan_exp_shorter: "scan_exp s = Some (e, rest) \<Longrightarrow> length rest \<le> length s"
  by (auto simp: scan_exp_def Let_def le_SucI length_dropWhile_le
      split: list.splits if_splits prod.splits)

lemma scan_number_shorter: "scan_number s = Some (v, rest) \<Longrightarrow> length rest < length s"
proof -
  assume a: "scan_number s = Some (v, rest)"
  obtain neg s1 where n: "(case s of [] \<Rightarrow> (False, s) | c # cs \<Rightarrow> if c = CHR ''-'' then (True, cs) else (False, s)) = (neg, s1)"
    by (metis surj_pair)
  then have l1: "length s1 \<le> length s" by (auto split: list.splits if_splits)
  from a n obtain ip s2 where i: "scan_int_part s1 = Some (ip, s2)"
    by (auto simp: scan_number_def split: option.splits)
  then have l2: "length s2 < length s1" by (rule scan_int_part_shorter)
  obtain fp s3 where f: "(case scan_frac s2 of None \<Rightarrow> ([], s2) | Some (fd, r) \<Rightarrow> (fd, r)) = (fp, s3)"
    by (metis surj_pair)
  then have l3: "length s3 \<le> length s2"
    by (auto split: option.splits dest: scan_frac_shorter)
  obtain ex s4 where e: "(case scan_exp s3 of None \<Rightarrow> (None, s3) | Some (e, r) \<Rightarrow> (Some e, r)) = (ex, s4)"
    by (metis surj_pair)
  then have l4: "length s4 \<le> length s3"
    by (auto split: option.splits dest: scan_exp_shorter)
  from a n i f e have "rest = s4"
    by (auto simp: scan_number_def Let_def split: if_splits)
  with l1 l2 l3 l4 show ?thesis by simp
qed

lemma scan_constant_shorter: "scan_constant s = Parsed v rest \<Longrightarrow> length rest < length s"
  by (auto simp: scan_constant_def prefix_def split: if_splits)

lemma map_parsed_Parsed:
  "map_parsed f r = Parsed y rest \<longleftrightarrow> (\<exists>x. r = Parsed x rest \<and> y = f x)"
  by (cases r) auto

lemma map_parsed_OutOfFuel [simp]: "map_parsed f r = OutOfFuel \<longleftrightarrow> r = OutOfFuel"
  by (cases r) auto

lemma parse_value_Nil: "parse_value (Suc n) [] = SyntaxError"
  by simp

lemma parse_value_str:
  "parse_value (Suc n) (CHR 0x22 # cs) =
     (case scan_string cs of None \<Rightarrow> SyntaxError | Some (str, rest) \<Rightarrow> Parsed (JStr str) rest)"
  by simp

lemma parse_value_obj:
  "parse_value (Suc n) (CHR ''{'' # cs) =
     (case skip_ws cs of
        [] \<Rightarrow> SyntaxError
      | d # ds \<Rightarrow>
          if d = CHR ''}'' then Parsed (JObj []) ds
          else if d = CHR 0x22
          then map_parsed (\<lambda>ps. JObj (dict_of_pairs ps)) (parse_pairs n ds)
          else SyntaxError)"
  by simp

lemma parse_value_arr:
  "parse_value (Suc n) (CHR ''['' # cs) =
     (case skip_ws cs of
        [] \<Rightarrow> SyntaxError
      | d # ds \<Rightarrow>
          if d = CHR '']'' then Parsed (JArr []) ds
          else map_parsed JArr (parse_items n (d # ds)))"
  by simp

lemma parse_value_other:
  "c \<noteq> CHR 0x22 \<Longrightarrow> c \<noteq> CHR ''{'' \<Longrightarrow> c \<noteq> CHR ''['' \<Longrightarrow>
   parse_value (Suc n) (c # cs) =
     (if prefix ''null'' (c # cs) then Parsed JNull (drop 4 (c # cs))
      else if prefix ''true'' (c # cs) then Parsed (JBool True) (drop 4 (c # cs))
      else if prefix ''false'' (c # cs) then Parsed (JBool False) (drop 5 (c # cs))
      else (case scan_number (c # cs) of
              Some (v, rest) \<Rightarrow> Parsed v rest
            | None \<Rightarrow> scan_constant (c # cs)))"
  by simp

declare parse_value.simps(2) [simp del]

lemma parse_value_Suc_shorter:
  assumes I: "\<And>s vs rest. parse_items n s = Parsed vs rest \<Longrightarrow> length rest < length s"
      and Q: "\<And>s ps rest. parse_pairs n s = Parsed ps rest \<Longrightarrow> length rest < length s"
      and p: "parse_value (Suc n) s = Parsed v rest"
  shows "length rest < length s"
proof -
  from p obtain c cs where s: "s = c # cs" by (cases s) (auto simp: parse_value_Nil)
  consider (str) "c = CHR 0x22" | (obj) "c = CHR ''{''" | (arr) "c = CHR ''[''"
    | (other) "c \<noteq> CHR 0x22" "c \<noteq> CHR ''{''" "c \<noteq> CHR ''[''" by blast
  then show ?thesis
  proof cases
    case str
    with p s show ?thesis
      by (auto simp: parse_value_str split: option.splits dest: scan_string_shorter)
  next
    case obj
    with p s obtain d ds where d: "skip_ws cs = d # ds"
      by (cases "skip_ws cs") (auto simp: parse_value_obj)
    then have "length ds < length cs" by (rule skip_ws_Cons)
    with p s obj d show ?thesis
      by (auto simp: parse_value_obj map_parsed_Parsed split: if_splits dest: Q)
  next
    case arr
    with p s obtain d ds where d: "skip_ws cs = d # ds"
      by (cases "skip_ws cs") (auto simp: parse_value_arr)
    then have "length ds < length cs" by (rule skip_ws_Cons)
    moreover have "length (d # ds) \<le> length cs" using length_skip_ws[of cs] d by simp
    ultimately show ?thesis using p s arr d
      by (auto simp: parse_value_arr map_parsed_Parsed split: if_splits dest!: I)
  next
    case other
    with p s show ?thesis
      by (auto simp: parse_value_other prefix_def split: if_splits option.splits
          dest: scan_number_shorter scan_constant_shorter)
  qed
qed

lemma parse_items_Suc_shorter:
  assumes P: "\<And>s v rest. parse_value n s = Parsed v rest \<Longrightarrow> length rest < length s"
      and I: "\<And>s vs rest. parse_items n s = Parsed vs rest \<Longrightarrow> length rest < length s"
      and p: "parse_items (Suc n) s = Parsed vs rest"
  shows "length rest < length s"
proof -
  from p obtain v r1 where v: "parse_value n s = Parsed v r1" by (auto split: parsed.splits)
  then have l1: "length r1 < length s" by (rule P)
  from p v obtain c cs where c: "skip_ws r1 = c # cs" by (cases "skip_ws r1") auto
  then have l2: "length cs < length r1" by (rule skip_ws_Cons)
  show ?thesis
  proof (cases "c = CHR '']''")
    case True
    with p v c l1 l2 show ?thesis by simp
  next
    case False
    with p v c obtain vs' where "parse_items n (skip_ws cs) = Parsed vs' rest"
      by (auto simp: map_parsed_Parsed split: if_splits)
    then have "length rest < length (skip_ws cs)" by (rule I)
    with l1 l2 length_skip_ws[of cs] show ?thesis by simp
  qed
qed

lemma parse_pairs_Suc_shorter:
  assumes P: "\<And>s v rest. parse_value n s = Parsed v rest \<Longrightarrow> length rest < length s"
      and Q: "\<And>s ps rest. parse_pairs n s = Parsed ps rest \<Longrightarrow> length rest < length s"
      and p: "parse_pairs (Suc n) s = Parsed ps rest"
  shows "length rest < length s"
proof -
  from p obtain key r1 where k: "scan_string s = Some (key, r1)" by (auto split: option.splits)
  then have l1: "length r1 < length s" by (rule scan_string_shorter)
  from p k obtain c cs where c: "skip_ws r1 = c # cs" by (cases "skip_ws r1") auto
  then have l2: "length cs < length r1" by (rule skip_ws_Cons)
  from p k c have colon: "c = CHR '':''" by (auto split: if_splits)
  with p k c obtain v r2 where v: "parse_value n (skip_ws cs) = Parsed v r2"
    by (auto split: parsed.splits)
  then have l3: "length r2 < length (skip_ws cs)" by (rule P)
  from p k c colon v obtain d ds where d: "skip_ws r2 = d # ds" by (cases "skip_ws r2") auto
  then have l4: "length ds < length r2" by (rule skip_ws_Cons)
  show ?thesis
  proof (cases "d = CHR ''}''")
    case True
    with p k c colon v d l1 l2 l3 l4 length_skip_ws[of cs] show ?thesis by simp
  next
    case False
    with p k c colon v d obtain q qs where q: "skip_ws ds = q # qs" by (cases "skip_ws ds") (auto split: if_splits)
    then have l5: "length qs < length ds" by (rule skip_ws_Cons)
    from False p k c colon v d q obtain ps' where "parse_pairs n qs = Parsed ps' rest"
      by (auto simp: map_parsed_Parsed split: if_splits)
    then have "length rest < length qs" by (rule Q)
    with l1 l2 l3 l4 l5 length_skip_ws[of cs] show ?thesis by simp
  qed
qed

lemma parse_shorter:
  "(\<forall>s v rest. parse_value n s = Parsed v rest \<longrightarrow> length rest < length s)
 \<and> (\<forall>s vs rest. parse_items n s = Parsed vs rest \<longrightarrow> length rest < length s)
 \<and> (\<forall>s ps rest. parse_pairs n s = Parsed ps rest \<longrightarrow> length rest < length s)"
proof (induction n)
  case 0
  then show ?case by simp
next
  case (Suc n)
  show ?case
    using Suc.IH
    by (blast intro: parse_value_Suc_shorter parse_items_Suc_shorter parse_pairs_Suc_shorter)
qed

lemma parse_value_shorter: "parse_value n s = Parsed v rest \<Longrightarrow> length rest < length s"
  using parse_shorter[of n] by blast

subsection \<open>The bound on the calls is never reached\<close>

lemma parse_value_Suc_fuel:
  assumes I: "\<And>s. 2 * length s + 2 \<le> n \<Longrightarrow> parse_items n s \<noteq> OutOfFuel"
      and Q: "\<And>s. 2 * length s + 1 \<le> n \<Longrightarrow> parse_pairs n s \<noteq> OutOfFuel"
      and n: "2 * length s + 1 \<le> Suc n"
  shows "parse_value (Suc n) s \<noteq> OutOfFuel"
proof (cases s)
  case Nil
  then show ?thesis by (simp add: parse_value_Nil)
next
  case (Cons c cs)
  consider (str) "c = CHR 0x22" | (obj) "c = CHR ''{''" | (arr) "c = CHR ''[''"
    | (other) "c \<noteq> CHR 0x22" "c \<noteq> CHR ''{''" "c \<noteq> CHR ''[''" by blast
  then show ?thesis
  proof cases
    case str
    with Cons show ?thesis by (simp add: parse_value_str split: option.splits)
  next
    case obj
    show ?thesis
    proof (cases "skip_ws cs")
      case Nil
      with obj Cons show ?thesis by (simp add: parse_value_obj)
    next
      case (Cons d ds)
      then have "length ds < length cs" by (rule skip_ws_Cons)
      with n \<open>s = c # cs\<close> have "2 * length ds + 1 \<le> n" by simp
      then have "parse_pairs n ds \<noteq> OutOfFuel" by (rule Q)
      with obj Cons \<open>s = c # cs\<close> show ?thesis by (simp add: parse_value_obj)
    qed
  next
    case arr
    show ?thesis
    proof (cases "skip_ws cs")
      case Nil
      with arr Cons show ?thesis by (simp add: parse_value_arr)
    next
      case (Cons d ds)
      then have "length (d # ds) \<le> length cs" using length_skip_ws[of cs] by simp
      with n \<open>s = c # cs\<close> have "2 * length (d # ds) + 2 \<le> n" by simp
      then have "parse_items n (d # ds) \<noteq> OutOfFuel" by (rule I)
      with arr Cons \<open>s = c # cs\<close> show ?thesis by (simp add: parse_value_arr)
    qed
  next
    case other
    with Cons show ?thesis
      by (simp add: parse_value_other scan_constant_def split: option.splits)
  qed
qed

lemma parse_items_Suc_fuel:
  assumes P: "\<And>s. 2 * length s + 1 \<le> n \<Longrightarrow> parse_value n s \<noteq> OutOfFuel"
      and I: "\<And>s. 2 * length s + 2 \<le> n \<Longrightarrow> parse_items n s \<noteq> OutOfFuel"
      and n: "2 * length s + 2 \<le> Suc n"
  shows "parse_items (Suc n) s \<noteq> OutOfFuel"
proof (cases "parse_value n s")
  case (Parsed v r1)
  then have l1: "length r1 < length s" by (rule parse_value_shorter)
  show ?thesis
  proof (cases "skip_ws r1")
    case Nil
    with Parsed show ?thesis by simp
  next
    case (Cons c cs)
    then have "length cs < length r1" by (rule skip_ws_Cons)
    with l1 n length_skip_ws[of cs] have "2 * length (skip_ws cs) + 2 \<le> n" by simp
    then have "parse_items n (skip_ws cs) \<noteq> OutOfFuel" by (rule I)
    with Parsed Cons show ?thesis by simp
  qed
next
  case SyntaxError
  then show ?thesis by simp
next
  case OutOfFuel
  moreover have "parse_value n s \<noteq> OutOfFuel" using n by (intro P) simp
  ultimately show ?thesis by simp
qed

lemma parse_pairs_Suc_fuel:
  assumes P: "\<And>s. 2 * length s + 1 \<le> n \<Longrightarrow> parse_value n s \<noteq> OutOfFuel"
      and Q: "\<And>s. 2 * length s + 1 \<le> n \<Longrightarrow> parse_pairs n s \<noteq> OutOfFuel"
      and n: "2 * length s + 1 \<le> Suc n"
  shows "parse_pairs (Suc n) s \<noteq> OutOfFuel"
proof (cases "scan_string s")
  case None
  then show ?thesis by simp
next
  case (Some kr)
  then obtain key r1 where k: "scan_string s = Some (key, r1)" by (cases kr) auto
  then have l1: "length r1 < length s" by (rule scan_string_shorter)
  show ?thesis
  proof (cases "skip_ws r1")
    case Nil
    with k show ?thesis by simp
  next
    case (Cons c cs)
    then have l2: "length cs < length r1" by (rule skip_ws_Cons)
    show ?thesis
    proof (cases "parse_value n (skip_ws cs)")
      case (Parsed v r2)
      then have l3: "length r2 < length (skip_ws cs)" by (rule parse_value_shorter)
      show ?thesis
      proof (cases "skip_ws r2")
        case Nil
        with k Cons Parsed show ?thesis by simp
      next
        case d: (Cons d ds)
        then have l4: "length ds < length r2" by (rule skip_ws_Cons)
        show ?thesis
        proof (cases "skip_ws ds")
          case Nil
          with k Cons Parsed d show ?thesis by simp
        next
          case q: (Cons q qs)
          then have "length qs < length ds" by (rule skip_ws_Cons)
          with l1 l2 l3 l4 n length_skip_ws[of cs] have "2 * length qs + 1 \<le> n" by simp
          then have "parse_pairs n qs \<noteq> OutOfFuel" by (rule Q)
          with k Cons Parsed d q show ?thesis by simp
        qed
      qed
    next
      case SyntaxError
      with k Cons show ?thesis by simp
    next
      case OutOfFuel
      moreover have "parse_value n (skip_ws cs) \<noteq> OutOfFuel"
        using n l1 l2 length_skip_ws[of cs] by (intro P) simp
      ultimately show ?thesis by simp
    qed
  qed
qed

lemma parse_fuel:
  "(\<forall>s. 2 * length s + 1 \<le> n \<longrightarrow> parse_value n s \<noteq> OutOfFuel)
 \<and> (\<forall>s. 2 * length s + 2 \<le> n \<longrightarrow> parse_items n s \<noteq> OutOfFuel)
 \<and> (\<forall>s. 2 * length s + 1 \<le> n \<longrightarrow> parse_pairs n s \<noteq> OutOfFuel)"
proof (induction n)
  case 0
  then show ?case by simp
next
  case (Suc n)
  then have P: "\<And>s. 2 * length s + 1 \<le> n \<Longrightarrow> parse_value n s \<noteq> OutOfFuel"
    and I: "\<And>s. 2 * length s + 2 \<le> n \<Longrightarrow> parse_items n s \<noteq> OutOfFuel"
    and Q: "\<And>s. 2 * length s + 1 \<le> n \<Longrightarrow> parse_pairs n s \<noteq> OutOfFuel"
    by blast+
  show ?case
  proof (intro conjI allI impI)
    fix s :: string assume a: "2 * length s + 1 \<le> Suc n"
    show "parse_value (Suc n) s \<noteq> OutOfFuel"
      by (rule parse_value_Suc_fuel) (erule I, erule Q, rule a)
  next
    fix s :: string assume a: "2 * length s + 2 \<le> Suc n"
    show "parse_items (Suc n) s \<noteq> OutOfFuel"
      by (rule parse_items_Suc_fuel) (erule P, erule I, rule a)
  next
    fix s :: string assume a: "2 * length s + 1 \<le> Suc n"
    show "parse_pairs (Suc n) s \<noteq> OutOfFuel"
      by (rule parse_pairs_Suc_fuel) (erule P, erule Q, rule a)
  qed
qed

lemma parse_value_fuel: "2 * length s + 1 \<le> n \<Longrightarrow> parse_value n s \<noteq> OutOfFuel"
  using parse_fuel[of n] by blast

lemma json_loads_error: "json_loads s = Inl e \<Longrightarrow> e = JSONDecodeError"
proof -
  assume a: "json_loads s = Inl e"
  have "parse_value (2 * length s + 2) (skip_ws s) \<noteq> OutOfFuel"
    using length_skip_ws[of s] by (intro parse_value_fuel) simp
  with a show ?thesis
    by (auto simp: json_loads_def split: parsed.splits if_splits)
qed

lemma json_loads_Nil: "json_loads [] = Inl JSONDecodeError"
  by (simp add: json_loads_def skip_ws_def parse_value_Nil numeral_2_eq_2)

lemma skip_ws_bracket: "skip_ws (CHR ''['' # s) = CHR ''['' # s"
  by (simp add: skip_ws_def is_json_ws_def)

lemma json_loads_bracket:
  assumes "json_loads (CHR ''['' # s) = Inr v"
  shows "\<exists>xs. v = JArr xs"
proof -
  obtain n where n: "2 * length (CHR ''['' # s) + 2 = Suc n" by simp
  from assms obtain rest where "parse_value (Suc n) (CHR ''['' # s) = Parsed v rest"
    unfolding json_loads_def skip_ws_bracket n by (auto split: parsed.splits if_splits)
  then show ?thesis
    by (auto simp: parse_value_arr map_parsed_Parsed split: list.splits if_splits)
qed

lemma loads_one: "json_loads ''[1]'' = Inr (JArr [JInt 1])"
  by code_simp

lemma loads_open: "json_loads ''[1,'' = Inl JSONDecodeError"
  by code_simp



section \<open>Loading the progress record\<close>

text \<open>
  Claim C4. When the progress file is missing, or its content is not well-formed JSON,
  \<open>load_progress\<close> installs the default record: no topic, no quiz score, no question
  asked, no correct answer. \<open>load_progress\<close> has no exceptional outcome at all: its
  \<open>except\<close> clause catches everything.
\<close>

theorem load_progress_default:
  "(files a progress_file = None \<longrightarrow> load_progress a = a\<lparr>progress := default_progress\<rparr>)
 \<and> (files a progress_file = Some content \<and> json_loads content = Inl e
      \<longrightarrow> load_progress a = a\<lparr>progress := default_progress\<rparr>)
 \<and> field default_progress ''topics_studied'' = JArr []
 \<and> field default_progress ''quiz_scores'' = JArr []
 \<and> field default_progress ''total_questions'' = JInt 0
 \<and> field default_progress ''correct_answers'' = JInt 0"
  by (simp add: load_progress_def default_progress_def field_def)

theorem load_progress_default_witness:
  "load_progress \<lparr>progress = JNull, files = Map.empty\<rparr>
     = \<lparr>progress = default_progress, files = Map.empty\<rparr>
 \<and> load_progress \<lparr>progress = JNull, files = [progress_file \<mapsto> ''[1,'']\<rparr>
     = \<lparr>progress = default_progress, files = [progress_file \<mapsto> ''[1,'']\<rparr>"
  using load_progress_default[of "\<lparr>progress = JNull, files = Map.empty\<rparr>" "[]" JSONDecodeError]
    load_progress_default[of "\<lparr>progress = JNull, files = [progress_file \<mapsto> ''[1,'']\<rparr>"
      "''[1,''" JSONDecodeError]
  by (simp add: loads_open)



section \<open>Extracting the quiz\<close>

lemma generate_quiz_text:
  "generate_quiz (Inr text) topic =
     Inr (None, case json_loads (bracketed text) of Inr v \<Rightarrow> v | Inl e \<Rightarrow> JArr [])"
proof (cases "CHR ''['' \<in> set text \<and> CHR '']'' \<in> set text")
  case True
  then have "length (takeWhile (\<lambda>x. x \<noteq> CHR '']'') (rev text)) < length (rev text)"
    by (intro takeWhile_shorter[where x = "CHR '']''"]) auto
  with True have "py_find text (CHR ''['') \<noteq> - 1" "py_rfind text (CHR '']'') + 1 \<noteq> 0"
    by (simp_all add: py_find_eq py_rfind_eq)
  with True show ?thesis
    by (auto simp: generate_quiz_def Let_def extracted_is_bracketed
        split: sum.splits dest: json_loads_error)
next
  case False
  then have "bracketed text = []" by (intro bracketed_absent) auto
  moreover from False have "py_find text (CHR ''['') = - 1 \<or> py_rfind text (CHR '']'') + 1 = 0"
    by (auto simp: py_find_eq py_rfind_eq)
  ultimately show ?thesis
    by (auto simp: generate_quiz_def Let_def json_loads_Nil)
qed

lemma generate_quiz_returns: "\<exists>w q. generate_quiz response topic = Inr (w, q)"
proof (cases response)
  case (Inl e)
  then show ?thesis by (simp add: generate_quiz_def)
next
  case (Inr t)
  then show ?thesis by (simp add: generate_quiz_text)
qed

lemma generate_quiz_list:
  assumes "generate_quiz response topic = Inr (w, quiz_data)"
  shows "\<exists>xs. quiz_data = JArr xs"
proof (cases response)
  case (Inl e)
  with assms show ?thesis by (auto simp: generate_quiz_def split: if_splits)
next
  case (Inr t)
  with assms have q: "quiz_data = (case json_loads (bracketed t) of Inr v \<Rightarrow> v | Inl e \<Rightarrow> JArr [])"
    by (simp add: generate_quiz_text)
  show ?thesis
  proof (cases "json_loads (bracketed t)")
    case (Inl e)
    with q show ?thesis by simp
  next
    case (Inr v)
    with bracketed_head[of t] json_loads_Nil obtain s where "bracketed t = CHR ''['' # s"
      by auto
    with Inr have "\<exists>xs. v = JArr xs" by (auto dest: json_loads_bracket)
    with q Inr show ?thesis by simp
  qed
qed



section \<open>Explaining a topic\<close>





section \<open>Taking a quiz\<close>

lemma ask_questions_quiz:
  "list_all is_quiz_question qs \<Longrightarrow> length qs \<le> length stdin \<Longrightarrow>
     ask_questions qs stdin s = Inr (s + int (correct_count qs stdin), drop (length qs) stdin)"
proof (induction qs arbitrary: stdin s)
  case Nil
  then show ?case by simp
next
  case (Cons q qs)
  then obtain line rest where stdin: "stdin = line # rest" by (cases stdin) auto
  from Cons.prems have q: "is_quiz_question q" by simp
  then have keys: "has_keys q [''question'', ''options'', ''correct'', ''explanation'']"
    and opts: "is_list_of is_str (field q ''options'')"
    by (simp_all add: is_quiz_question_def)
  have g: "py_getitem q ''question'' = Inr (field q ''question'')"
      "py_getitem q ''options'' = Inr (field q ''options'')"
      "py_getitem q ''correct'' = Inr (field q ''correct'')"
      "py_getitem q ''explanation'' = Inr (field q ''explanation'')"
    by (rule has_keys_getitem[OF keys], simp)+
  have "ask_questions (q # qs) stdin s =
          ask_questions qs rest (if JStr (py_upper (py_strip line)) = field q ''correct'' then s + 1 else s)"
    by (simp add: stdin g is_list_of_iter[OF opts] and_then_def Let_def)
  also have "\<dots> = Inr ((if JStr (py_upper (py_strip line)) = field q ''correct'' then s + 1 else s)
                       + int (correct_count qs rest), drop (length qs) rest)"
    using Cons.prems by (intro Cons.IH) (simp_all add: stdin)
  finally show ?case by (auto simp: stdin)
qed

lemma ask_questions_bounds:
  "ask_questions qs stdin s = Inr (score, rest) \<Longrightarrow> s \<le> score \<and> score \<le> s + int (length qs)"
proof (induction qs arbitrary: stdin s)
  case Nil
  then show ?case by simp
next
  case (Cons q qs)
  from Cons.prems obtain line rest' s' where
    "stdin = line # rest'" "ask_questions qs rest' s' = Inr (score, rest)" "s' = s \<or> s' = s + 1"
    by (cases stdin) (auto simp: and_then_Inr_iff Let_def split: if_splits)
  with Cons.IH[of rest' s'] show ?case by auto
qed

lemma ask_questions_no_zde: "ask_questions qs stdin s \<noteq> Inl ZeroDivisionError"
proof (induction qs arbitrary: stdin s)
  case Nil
  then show ?case by simp
next
  case (Cons q qs)
  show ?case
    using Cons.IH
    by (cases stdin)
       (auto simp: and_then_Inl_iff Let_def py_getitem_no_zde py_iter_no_zde)
qed

lemma take_quiz_success:
  assumes "take_quiz now quiz stdin a = Inr ((score, n), rest, a')"
  shows "\<exists>questions ratio kvs scores total correct total' correct'.
           py_iter quiz = Inr questions \<and> ask_questions questions stdin 0 = Inr (score, rest)
         \<and> py_len quiz = Inr n \<and> py_truediv score n = Inr ratio
         \<and> progress a = JObj kvs
         \<and> map_of kvs ''quiz_scores'' = Some (JArr scores)
         \<and> map_of kvs ''total_questions'' = Some total \<and> py_iadd total n = Inr total'
         \<and> map_of kvs ''correct_answers'' = Some correct \<and> py_iadd correct score = Inr correct'
         \<and> a' = save_progress (a\<lparr>progress :=
                   JObj (AList.update ''correct_answers'' correct'
                          (AList.update ''total_questions'' total'
                            (AList.update ''quiz_scores''
                               (JArr (scores @ [JObj [(''date'', JStr now), (''score'', JInt score),
                                  (''total'', JInt n), (''accuracy'', JFloat (float_mul ratio 100))]]))
                               kvs)))\<rparr>)"
  using assms unfolding take_quiz_def Let_def
  by (auto simp: and_then_Inr_iff py_getitem_Inr_iff py_append_Inr_iff py_setitem_Inr_iff
        update_conv' split: prod.splits)

lemma take_quiz_zde:
  assumes "take_quiz now quiz stdin a = Inl ZeroDivisionError"
  shows "py_len quiz = Inr 0"
  using assms unfolding take_quiz_def Let_def
  by (auto simp: and_then_Inl_iff py_getitem_no_zde py_setitem_no_zde py_iter_no_zde
        py_len_no_zde py_append_no_zde py_iadd_no_zde py_truediv_zde ask_questions_no_zde
        split: prod.splits)

lemma take_quiz_empty: "take_quiz now (JArr []) stdin a = Inl ZeroDivisionError"
  by (simp add: take_quiz_def and_then_def py_truediv_def)


lemma chat_quiz_no_zde: "chat_quiz response now topic stdin a \<noteq> Inl ZeroDivisionError"
proof
  assume z: "chat_quiz response now topic stdin a = Inl ZeroDivisionError"
  obtain w q where g: "generate_quiz response topic = Inr (w, q)"
    using generate_quiz_returns by blast
  with z have t: "py_truthy q" by (auto simp: chat_quiz_def and_then_def split: if_splits)
  show False
  proof (cases "take_quiz now q stdin a")
    case (Inl e)
    with z g t have "e = ZeroDivisionError" by (simp add: chat_quiz_def and_then_def)
    with Inl have "py_len q = Inr 0" by (auto dest: take_quiz_zde)
    with t show False by (simp add: py_len_truthy)
  next
    case (Inr r)
    obtain score n rest a' where r: "r = ((score, n), rest, a')"
      by (cases r) auto
    from take_quiz_success[OF Inr[unfolded r]] obtain ratio where "py_truediv score n = Inr ratio"
      by blast
    with z g t Inr r show False by (simp add: chat_quiz_def and_then_def)
  qed
qed


text \<open>
  Claim C10. \<open>take_quiz\<close> divides by the length of the quiz, and raises
  \<open>ZeroDivisionError\<close> on an empty one. The \<open>quiz\<close> branch of \<open>chat\<close> never raises it:
  it calls \<open>take_quiz\<close> only with a quiz that is true in Python's sense, and such a
  quiz returned by \<open>generate_quiz\<close> is a non-empty list.
\<close>

theorem quiz_division_guarded:
  "take_quiz now (JArr []) stdin a = Inl ZeroDivisionError
 \<and> chat_quiz response now topic stdin a \<noteq> Inl ZeroDivisionError
 \<and> (generate_quiz response topic = Inr (warning, quiz_data) \<and> py_truthy quiz_data
      \<longrightarrow> (\<exists>q qs. quiz_data = JArr (q # qs)))"
proof (intro conjI impI)
  show "take_quiz now (JArr []) stdin a = Inl ZeroDivisionError" by (rule take_quiz_empty)
  show "chat_quiz response now topic stdin a \<noteq> Inl ZeroDivisionError" by (rule chat_quiz_no_zde)
  assume a: "generate_quiz response topic = Inr (warning, quiz_data) \<and> py_truthy quiz_data"
  then obtain xs where "quiz_data = JArr xs" by (auto dest: generate_quiz_list)
  with a show "\<exists>q qs. quiz_data = JArr (q # qs)" by (cases xs) auto
qed

theorem quiz_division_guarded_witness:
  "generate_quiz (Inr ''[1]'') ''xss'' = Inr (None, JArr [JInt 1])
 \<and> py_truthy (JArr [JInt 1])
 \<and> (\<exists>q qs. JArr [JInt 1] = JArr (q # qs))"
proof -
  have g: "generate_quiz (Inr ''[1]'') ''xss'' = Inr (None, JArr [JInt 1])"
    by (simp add: generate_quiz_text bracketed_def loads_one)
  from quiz_division_guarded[where response = "Inr ''[1]''" and topic = "''xss''"
         and warning = None and quiz_data = "JArr [JInt 1]"] g
  show ?thesis by simp
qed

section \<open>The command line\<close>






end
